theory Spec2Isabelle
  imports Complex_Main "HOL-Library.Word"
begin

section \<open>plotPNG: a function plotter writing PNG files\<close>

text \<open>
  A shallow embedding of \<^verbatim>\<open>plotPNG.c\<close>. The program compiles an expression in
  \<open>x\<close> and \<open>y\<close> with tinyexpr, rasterises it into a buffer of rows of bytes and hands
  the buffer to libpng.

  Numbers. A value of type \<^verbatim>\<open>float\<close> or \<^verbatim>\<open>double\<close> is a finite real, an infinity
  or a NaN (\<open>fp\<close>). Every arithmetic operation computes the exact result and rounds it to
  the format of the operation, binary32 for \<^verbatim>\<open>float\<close> and binary64 for \<^verbatim>\<open>double\<close>,
  to the nearest value with ties to even, with gradual underflow and with overflow to an
  infinity, and follows IEEE 754 on infinities and NaN. An expression of type
  \<^verbatim>\<open>float\<close> is evaluated in binary32 (\<^verbatim>\<open>FLT_EVAL_METHOD\<close> 0). The two zeros are one
  value here: \<^verbatim>\<open>makeImageData\<close> never divides a number other than zero by a zero,
  and its comparisons and its conversions to integers take both zeros alike. A conversion
  to an integer type that cannot hold the truncated value has no value (\<open>to_long\<close>,
  \<open>to_byte\<close>). Array accesses outside the allocated rows are faults, not reads of
  unspecified list elements.
\<close>

subsection \<open>Floating point\<close>

datatype fp = Finite real | PInf | MInf | NaN

text \<open>
  A format has a precision \<open>p\<close> in bits and an exponent field of \<open>w\<close> bits. Its finite
  values are the \<open>m * 2 ^ e\<close> with \<open>\<bar>m\<bar> < 2 ^ p\<close> and \<open>e\<close> at least \<open>emin - (p - 1)\<close>,
  below \<open>2 ^ (emax + 1)\<close> in magnitude.
\<close>

definition emax :: "nat \<Rightarrow> int" where
  "emax w = 2 ^ (w - 1) - 1"

definition emin :: "nat \<Rightarrow> int" where
  "emin w = 2 - 2 ^ (w - 1)"

text \<open>
  The exponent of \<open>x\<close>, not below \<open>lo\<close>: the greatest \<open>k\<close> among the \<open>2 ^ d\<close> integers
  from \<open>lo\<close> on with \<open>2 ^ k \<le> x\<close>, and \<open>lo\<close> itself for a smaller \<open>x\<close>.
\<close>

fun ilog2 :: "nat \<Rightarrow> int \<Rightarrow> real \<Rightarrow> int" where
  "ilog2 0 lo x = lo"
| "ilog2 (Suc d) lo x =
     (if 2 powi (lo + 2 ^ d) \<le> x then ilog2 d (lo + 2 ^ d) x else ilog2 d lo x)"

text \<open>The nearest integer, the even one of the two when \<open>r\<close> lies half way.\<close>

definition nearest_even :: "real \<Rightarrow> int" where
  "nearest_even r =
     (if r - of_int \<lfloor>r\<rfloor> < 1 / 2 then \<lfloor>r\<rfloor>
      else if 1 / 2 < r - of_int \<lfloor>r\<rfloor> then \<lfloor>r\<rfloor> + 1
      else if even \<lfloor>r\<rfloor> then \<lfloor>r\<rfloor> else \<lfloor>r\<rfloor> + 1)"

text \<open>The exponent of the unit in the last place of the values around \<open>x\<close>.\<close>

definition quantum :: "nat \<Rightarrow> nat \<Rightarrow> real \<Rightarrow> int" where
  "quantum p w x = ilog2 w (emin w) \<bar>x\<bar> - (int p - 1)"

definition rnd :: "nat \<Rightarrow> nat \<Rightarrow> real \<Rightarrow> real" where
  "rnd p w x = of_int (nearest_even (x / 2 powi quantum p w x)) * 2 powi quantum p w x"

definition round_to :: "nat \<Rightarrow> nat \<Rightarrow> real \<Rightarrow> fp" where
  "round_to p w x =
     (if 2 powi (emax w + 1) \<le> rnd p w x then PInf
      else if rnd p w x \<le> - (2 powi (emax w + 1)) then MInf
      else Finite (rnd p w x))"

text \<open>Rounding to \<^verbatim>\<open>float\<close> (binary32) and to \<^verbatim>\<open>double\<close> (binary64).\<close>

definition to_float :: "real \<Rightarrow> fp" where
  "to_float = round_to 24 8"

definition to_double :: "real \<Rightarrow> fp" where
  "to_double = round_to 53 11"

text \<open>The comparisons \<^verbatim>\<open><=\<close> and \<^verbatim>\<open><\<close>: false when an operand is a NaN.\<close>

fun fle :: "fp \<Rightarrow> fp \<Rightarrow> bool" where
  "fle (Finite x) (Finite y) = (x \<le> y)"
| "fle NaN b = False"
| "fle a NaN = False"
| "fle MInf b = True"
| "fle a PInf = True"
| "fle a b = False"

fun flt :: "fp \<Rightarrow> fp \<Rightarrow> bool" where
  "flt (Finite x) (Finite y) = (x < y)"
| "flt NaN b = False"
| "flt a NaN = False"
| "flt PInf b = False"
| "flt a MInf = False"
| "flt a b = True"

text \<open>
  The operations, each with the rounding \<open>r\<close> of its format: \<open>to_float\<close> or \<open>to_double\<close>.
\<close>

fun fneg :: "fp \<Rightarrow> fp" where
  "fneg (Finite x) = Finite (- x)"
| "fneg PInf = MInf"
| "fneg MInf = PInf"
| "fneg NaN = NaN"

fun fadd :: "(real \<Rightarrow> fp) \<Rightarrow> fp \<Rightarrow> fp \<Rightarrow> fp" where
  "fadd r (Finite x) (Finite y) = r (x + y)"
| "fadd r NaN b = NaN"
| "fadd r a NaN = NaN"
| "fadd r PInf MInf = NaN"
| "fadd r MInf PInf = NaN"
| "fadd r PInf b = PInf"
| "fadd r a PInf = PInf"
| "fadd r MInf b = MInf"
| "fadd r a MInf = MInf"

definition fsub :: "(real \<Rightarrow> fp) \<Rightarrow> fp \<Rightarrow> fp \<Rightarrow> fp" where
  "fsub r a b = fadd r a (fneg b)"

fun fsign :: "fp \<Rightarrow> int" where
  "fsign (Finite x) = (if x < 0 then - 1 else if x = 0 then 0 else 1)"
| "fsign PInf = 1"
| "fsign MInf = - 1"
| "fsign NaN = 0"

fun fmul :: "(real \<Rightarrow> fp) \<Rightarrow> fp \<Rightarrow> fp \<Rightarrow> fp" where
  "fmul r (Finite x) (Finite y) = r (x * y)"
| "fmul r NaN b = NaN"
| "fmul r a NaN = NaN"
| "fmul r a b =
     (if fsign a * fsign b = 0 then NaN else if 0 < fsign a * fsign b then PInf else MInf)"

fun fdiv :: "(real \<Rightarrow> fp) \<Rightarrow> fp \<Rightarrow> fp \<Rightarrow> fp" where
  "fdiv r (Finite x) (Finite y) =
     (if y = 0 then (if x = 0 then NaN else if 0 < x then PInf else MInf) else r (x / y))"
| "fdiv r NaN b = NaN"
| "fdiv r a NaN = NaN"
| "fdiv r (Finite x) b = Finite 0"
| "fdiv r a (Finite y) = (if (0 < fsign a) = (0 \<le> y) then PInf else MInf)"
| "fdiv r a b = NaN"

text \<open>Conversion of a floating value to the format with rounding \<open>r\<close>.\<close>

fun narrow :: "(real \<Rightarrow> fp) \<Rightarrow> fp \<Rightarrow> fp" where
  "narrow r (Finite x) = r x"
| "narrow r a = a"

text \<open>Conversion of an integer to \<^verbatim>\<open>float\<close> and to \<^verbatim>\<open>double\<close>.\<close>

definition float_of_int :: "int \<Rightarrow> fp" where
  "float_of_int k = to_float (of_int k)"

definition double_of_int :: "int \<Rightarrow> fp" where
  "double_of_int k = to_double (of_int k)"

text \<open>Conversion of a floating value to an integer type discards the fractional part.\<close>

definition trunc :: "real \<Rightarrow> int" where
  "trunc r = (if 0 \<le> r then \<lfloor>r\<rfloor> else \<lceil>r\<rceil>)"

text \<open>To \<^verbatim>\<open>long int\<close>, of 64 bits as on the platforms libpng and this program build on.\<close>

definition to_long :: "fp \<Rightarrow> int option" where
  "to_long a = (case a of
       Finite r \<Rightarrow> if - (2 ^ 63) \<le> trunc r \<and> trunc r < 2 ^ 63 then Some (trunc r) else None
     | _ \<Rightarrow> None)"

text \<open>To \<^verbatim>\<open>png_byte\<close>, an unsigned char.\<close>

definition to_byte :: "fp \<Rightarrow> 8 word option" where
  "to_byte a = (case a of
       Finite r \<Rightarrow> if 0 \<le> trunc r \<and> trunc r \<le> 255 then Some (word_of_int (trunc r)) else None
     | _ \<Rightarrow> None)"

subsection \<open>Data\<close>

type_synonym png_byte = "8 word"

text \<open>\<^verbatim>\<open>png_bytep *rowPointers\<close>: the rows of the image, top row first, each a byte array.\<close>

type_synonym image = "png_byte list list"

text \<open>\<^verbatim>\<open>struct png_struct\<close>; the two dimensions are \<^verbatim>\<open>short int\<close>.\<close>

record PNG =
  imgWidth :: int
  imgHeight :: int
  colourType :: png_byte
  bitDepth :: png_byte

text \<open>
  A compiled \<^verbatim>\<open>te_expr\<close> bound to the variables \<open>x\<close> and \<open>y\<close>: \<^verbatim>\<open>te_eval\<close> reads
  the two variables, of type \<^verbatim>\<open>double\<close>, and returns a \<^verbatim>\<open>double\<close>, which may be an
  infinity or a NaN. tinyexpr is a library outside this program, so \<^verbatim>\<open>te_compile\<close> is a
  parameter of the model: a function from the expression text to a compiled expression,
  or to \<open>None\<close> where tinyexpr returns the null pointer.
\<close>

type_synonym te_expr = "fp \<Rightarrow> fp \<Rightarrow> fp"

type_synonym compiler = "string \<Rightarrow> te_expr option"

text \<open>The messages of \<^verbatim>\<open>abortProgram\<close> and of the warnings, by what they report.\<close>

datatype message =
    ProgramAborted
  | IncorrectArguments
  | InvalidFileName
  | InvalidExpression
  | NoXVariable
  | LargeDimensions
  | CompileFailed
  | InvalidDimensions
  | FileNotOpened string
  | CreateWriteStructFailed
  | CreateInfoStructFailed
  | ErrorDuringInitIo
  | ErrorDuringWritingHeader
  | ErrorDuringWritingBytes
  | ErrorDuringEndOfWrite
  | SuccessfullyCreated string

text \<open>
  What C leaves undefined (or to the implementation) and the program can run into: an
  index outside an array, a floating value converted to an integer type that cannot
  represent it, a read of a cell of \<^verbatim>\<open>z_values\<close> never written, and the 16-bit loop
  counter incremented past 32767.
\<close>

datatype fault = OutOfBounds | NotRepresentable | Uninitialised | CounterOverflow

datatype error = Abort message | Undefined fault

text \<open>
  The variables of \<^verbatim>\<open>makeImageData\<close> that live across statements, the image it
  writes to, and the arguments \<open>(x, y)\<close> of every \<^verbatim>\<open>te_eval\<close> call so far, in order.
  \<open>x_incr\<close>, \<open>y_incr\<close>, \<open>max\<close>, \<open>min\<close> and the cells of \<open>z_values\<close> are
  \<^verbatim>\<open>float\<close>.
\<close>

record locals =
  x_incr :: fp
  y_incr :: fp
  max_v :: fp
  min_v :: fp
  z_values :: "nat \<times> nat \<rightharpoonup> fp"
  rowPointers :: image
  evals :: "(fp \<times> fp) list"

text \<open>
  A statement either finishes in a new state or stops the program; the state paired with
  an error is the one the program was in when it stopped.
\<close>

type_synonym outcome = "(error \<times> locals) + locals"

subsection \<open>Strings\<close>

text \<open>\<^verbatim>\<open>strchr\<close>: the rest of the string from the first occurrence of the character on.\<close>

fun strchr :: "string \<Rightarrow> char \<Rightarrow> string option" where
  "strchr [] c = None"
| "strchr (d # s) c = (if d = c then Some (d # s) else strchr s c)"

fun is_prefix :: "string \<Rightarrow> string \<Rightarrow> bool" where
  "is_prefix [] s = True"
| "is_prefix (c # needle) [] = False"
| "is_prefix (c # needle) (d # s) = (c = d \<and> is_prefix needle s)"

text \<open>\<^verbatim>\<open>strstr\<close>: the rest of the string from the first occurrence of the needle on.\<close>

fun strstr :: "string \<Rightarrow> string \<Rightarrow> string option" where
  "strstr [] needle = (if needle = [] then Some [] else None)"
| "strstr (d # s) needle = (if is_prefix needle (d # s) then Some (d # s) else strstr s needle)"

subsection \<open>The image buffer\<close>

text \<open>
  \<^verbatim>\<open>ptr = &(row[off]); ptr[0] = r; ptr[1] = g; ptr[2] = b;\<close> on row \<open>r\<close> of the image:
  \<open>None\<close> when the row or one of the three bytes is outside what was allocated.
\<close>

definition put_pixel :: "image \<Rightarrow> int \<Rightarrow> int \<Rightarrow> png_byte \<times> png_byte \<times> png_byte \<Rightarrow> image option" where
  "put_pixel img r off c =
     (if 0 \<le> r \<and> r < int (length img) \<and> 0 \<le> off \<and> off + 2 < int (length (img ! nat r))
      then Some (img[nat r := (img ! nat r)
             [nat off := fst c, nat off + 1 := fst (snd c), nat off + 2 := snd (snd c)]])
      else None)"

text \<open>The three bytes of the pixel in column \<open>c\<close> of row \<open>r\<close>, for reading results.\<close>

definition pixel_at :: "nat \<Rightarrow> image \<Rightarrow> nat \<Rightarrow> nat \<Rightarrow> png_byte \<times> png_byte \<times> png_byte" where
  "pixel_at vpp img r c = (img ! r ! (c * vpp), img ! r ! (c * vpp + 1), img ! r ! (c * vpp + 2))"

text \<open>A buffer that holds at least \<open>h\<close> rows of \<open>w\<close> pixels of \<open>vpp\<close> bytes each.\<close>

definition allocated :: "nat \<Rightarrow> nat \<Rightarrow> nat \<Rightarrow> image \<Rightarrow> bool" where
  "allocated vpp w h img = (h \<le> length img \<and> list_all (\<lambda>row. vpp * w \<le> length row) (take h img))"

subsection \<open>Loops\<close>

text \<open>The body runs on each element in turn; the first error ends the loop.\<close>

primrec iterate :: "('a \<Rightarrow> 's \<Rightarrow> ('e \<times> 's) + 's) \<Rightarrow> 'a list \<Rightarrow> 's \<Rightarrow> ('e \<times> 's) + 's" where
  "iterate body [] s = Inr s"
| "iterate body (i # is) s =
     (case body i s of Inl e \<Rightarrow> Inl e | Inr s' \<Rightarrow> iterate body is s')"

text \<open>\<^verbatim>\<open>for (i=0; i<n; i++) body\<close>.\<close>

definition for_loop :: "nat \<Rightarrow> (nat \<Rightarrow> 's \<Rightarrow> ('e \<times> 's) + 's) \<Rightarrow> 's \<Rightarrow> ('e \<times> 's) + 's" where
  "for_loop n body s = iterate body [0..<n] s"

subsection \<open>makeImageData\<close>

text \<open>\<^verbatim>\<open>char *fxy_check = strchr(expression, 'y');\<close>\<close>

definition fxy_check :: "string \<Rightarrow> string option" where
  "fxy_check expression = strchr expression CHR ''y''"

text \<open>The state at entry: the initialisers of the declarations, the image as passed in.\<close>

definition entry :: "image \<Rightarrow> locals" where
  "entry rows = \<lparr>x_incr = Finite 0, y_incr = Finite 0, max_v = Finite 0, min_v = Finite 0,
     z_values = Map.empty, rowPointers = rows, evals = []\<rparr>"

text \<open>
  \<^verbatim>\<open>1.0 / n\<close> for an integer \<open>n\<close>, a \<^verbatim>\<open>double\<close> division, and \<^verbatim>\<open>v += step\<close> for a
  \<^verbatim>\<open>float\<close> variable and a \<^verbatim>\<open>double\<close> step: the sum is a \<^verbatim>\<open>double\<close> sum, converted
  to \<^verbatim>\<open>float\<close> by the assignment.
\<close>

definition increment :: "int \<Rightarrow> fp" where
  "increment n = fdiv to_double (Finite 1) (double_of_int n)"

definition advance :: "fp \<Rightarrow> fp \<Rightarrow> fp" where
  "advance step v = narrow to_float (fadd to_double v step)"

text \<open>Colouring the background white: the body of the inner loop, and one row.\<close>

definition whiten_pixel :: "int \<Rightarrow> nat \<Rightarrow> nat \<Rightarrow> locals \<Rightarrow> outcome" where
  "whiten_pixel valuesPerPixel i j s =
     (case put_pixel (rowPointers s) (int i) (int j * valuesPerPixel) (255, 255, 255) of
        None \<Rightarrow> Inl (Undefined OutOfBounds, s)
      | Some img \<Rightarrow> Inr (s\<lparr>rowPointers := img\<rparr>))"

definition whiten_row :: "PNG \<Rightarrow> int \<Rightarrow> nat \<Rightarrow> locals \<Rightarrow> outcome" where
  "whiten_row pngData valuesPerPixel i s =
     (if i < length (rowPointers s)
      then for_loop (nat (imgWidth pngData)) (whiten_pixel valuesPerPixel i) s
      else Inl (Undefined OutOfBounds, s))"

text \<open>
  One sample of the curve. The variable \<open>y\<close> is never assigned on this path; \<open>y0\<close> is
  the value it happens to hold. \<open>x_incr * imgWidth\<close> is a \<^verbatim>\<open>float\<close> product and
  \<open>result * imgHeight\<close> a \<^verbatim>\<open>double\<close> product, both converted to \<^verbatim>\<open>long int\<close>.
\<close>

definition curve_sample :: "te_expr \<Rightarrow> fp \<Rightarrow> PNG \<Rightarrow> int \<Rightarrow> nat \<Rightarrow> locals \<Rightarrow> outcome" where
  "curve_sample n y0 pngData valuesPerPixel i s =
     (let result = n (x_incr s) y0;
          s1 = s\<lparr>evals := evals s @ [(x_incr s, y0)]\<rparr>;
          next = advance (increment (imgWidth pngData * 50)) (x_incr s1)
      in if flt result (Finite 1) then
           (case to_long (fmul to_float (x_incr s1) (float_of_int (imgWidth pngData))) of
              None \<Rightarrow> Inl (Undefined NotRepresentable, s1)
            | Some x_pixel \<Rightarrow>
           (case to_long (fmul to_double result (double_of_int (imgHeight pngData))) of
              None \<Rightarrow> Inl (Undefined NotRepresentable, s1)
            | Some y_pixel \<Rightarrow>
           (case put_pixel (rowPointers s1) ((imgHeight pngData - 1) - y_pixel)
                   (x_pixel * valuesPerPixel) (0, 0, 255) of
              None \<Rightarrow> Inl (Undefined OutOfBounds, s1)
            | Some img \<Rightarrow> Inr (s1\<lparr>rowPointers := img, x_incr := next\<rparr>))))
         else Inr (s1\<lparr>x_incr := next\<rparr>))"

text \<open>
  The branch for \<open>f(x)\<close>. The counter \<open>i\<close> is a \<^verbatim>\<open>short int\<close> compared with the
  \<^verbatim>\<open>int\<close> \<open>imgWidth * 50\<close>: it takes the values from 0 to 32767 at most, and the
  increment after that does not fit.
\<close>

definition plot_curve :: "te_expr \<Rightarrow> fp \<Rightarrow> PNG \<Rightarrow> int \<Rightarrow> locals \<Rightarrow> outcome" where
  "plot_curve n y0 pngData valuesPerPixel s =
     (case for_loop (nat (imgHeight pngData)) (whiten_row pngData valuesPerPixel) s of
        Inl e \<Rightarrow> Inl e
      | Inr s1 \<Rightarrow>
     (case for_loop (nat (min (imgWidth pngData * 50) 32768))
             (curve_sample n y0 pngData valuesPerPixel) s1 of
        Inl e \<Rightarrow> Inl e
      | Inr s2 \<Rightarrow>
          if imgWidth pngData * 50 > 32767 then Inl (Undefined CounterOverflow, s2) else Inr s2))"

text \<open>
  Calculating the z values: the body of the inner loop, and one turn of the outer. The
  result is a \<^verbatim>\<open>double\<close>; it is compared with \<open>max\<close> and \<open>min\<close> as a \<^verbatim>\<open>double\<close> and
  converted to \<^verbatim>\<open>float\<close> where it is stored.
\<close>

definition surface_sample :: "te_expr \<Rightarrow> PNG \<Rightarrow> nat \<Rightarrow> nat \<Rightarrow> locals \<Rightarrow> outcome" where
  "surface_sample n pngData i j s =
     (let result = n (x_incr s) (y_incr s);
          s1 = s\<lparr>evals := evals s @ [(x_incr s, y_incr s)]\<rparr>;
          s2 = (if i = 0 \<and> j = 0
                then s1\<lparr>max_v := narrow to_float result, min_v := narrow to_float result\<rparr>
                else if flt (max_v s1) result then s1\<lparr>max_v := narrow to_float result\<rparr>
                else if flt result (min_v s1) then s1\<lparr>min_v := narrow to_float result\<rparr>
                else s1)
      in Inr (s2\<lparr>z_values := (z_values s2)((i, j) \<mapsto> narrow to_float result),
                 y_incr := advance (increment (imgWidth pngData)) (y_incr s2)\<rparr>))"

definition surface_row :: "te_expr \<Rightarrow> PNG \<Rightarrow> nat \<Rightarrow> locals \<Rightarrow> outcome" where
  "surface_row n pngData i s =
     (case for_loop (nat (imgHeight pngData)) (surface_sample n pngData i)
             (s\<lparr>y_incr := Finite 0\<rparr>) of
        Inl e \<Rightarrow> Inl e
      | Inr s1 \<Rightarrow> Inr (s1\<lparr>x_incr := advance (increment (imgHeight pngData)) (x_incr s1)\<rparr>))"

text \<open>
  Plotting colours. \<^verbatim>\<open>p = (z_values[i][j] - min)/(max - min)\<close>, \<^verbatim>\<open>255 * (1 - p)\<close> and
  \<^verbatim>\<open>255 * p\<close> are \<^verbatim>\<open>float\<close> expressions.
\<close>

definition normalise :: "fp \<Rightarrow> fp \<Rightarrow> fp \<Rightarrow> fp" where
  "normalise mn mx z = fdiv to_float (fsub to_float z mn) (fsub to_float mx mn)"

definition red_of :: "fp \<Rightarrow> fp" where
  "red_of p = fmul to_float (Finite 255) (fsub to_float (Finite 1) p)"

definition blue_of :: "fp \<Rightarrow> fp" where
  "blue_of p = fmul to_float (Finite 255) p"

definition colour_cell :: "PNG \<Rightarrow> int \<Rightarrow> nat \<Rightarrow> nat \<Rightarrow> locals \<Rightarrow> outcome" where
  "colour_cell pngData valuesPerPixel i j s =
     (case z_values s (i, j) of
        None \<Rightarrow> Inl (Undefined Uninitialised, s)
      | Some z \<Rightarrow>
     (let p = normalise (min_v s) (max_v s) z in
      case to_byte (red_of p) of
        None \<Rightarrow> Inl (Undefined NotRepresentable, s)
      | Some red \<Rightarrow>
     (case to_byte (blue_of p) of
        None \<Rightarrow> Inl (Undefined NotRepresentable, s)
      | Some blue \<Rightarrow>
     (case put_pixel (rowPointers s) ((imgWidth pngData - 1) - int i)
             (int j * valuesPerPixel) (red, 0, blue) of
        None \<Rightarrow> Inl (Undefined OutOfBounds, s)
      | Some img \<Rightarrow> Inr (s\<lparr>rowPointers := img\<rparr>)))))"

definition colour_row :: "PNG \<Rightarrow> int \<Rightarrow> nat \<Rightarrow> locals \<Rightarrow> outcome" where
  "colour_row pngData valuesPerPixel i s =
     for_loop (nat (imgHeight pngData)) (colour_cell pngData valuesPerPixel i) s"

text \<open>The two passes of the branch for \<open>f(x,y)\<close>.\<close>

definition first_pass :: "te_expr \<Rightarrow> PNG \<Rightarrow> locals \<Rightarrow> outcome" where
  "first_pass n pngData s = for_loop (nat (imgWidth pngData)) (surface_row n pngData) s"

definition second_pass :: "PNG \<Rightarrow> int \<Rightarrow> locals \<Rightarrow> outcome" where
  "second_pass pngData valuesPerPixel s =
     for_loop (nat (imgWidth pngData)) (colour_row pngData valuesPerPixel) s"

definition plot_surface :: "te_expr \<Rightarrow> PNG \<Rightarrow> int \<Rightarrow> locals \<Rightarrow> outcome" where
  "plot_surface n pngData valuesPerPixel s =
     (case first_pass n pngData s of
        Inl e \<Rightarrow> Inl e
      | Inr s1 \<Rightarrow> second_pass pngData valuesPerPixel s1)"

definition makeImageData ::
    "compiler \<Rightarrow> fp \<Rightarrow> PNG \<Rightarrow> int \<Rightarrow> image \<Rightarrow> string \<Rightarrow> outcome" where
  "makeImageData te_compile y0 pngData valuesPerPixel rows expression =
     (case te_compile expression of
        None \<Rightarrow> Inl (Abort CompileFailed, entry rows)
      | Some n \<Rightarrow>
          if fxy_check expression \<noteq> None \<and> imgHeight pngData \<noteq> imgWidth pngData
          then Inl (Abort InvalidDimensions, entry rows)
          else if fxy_check expression = None
          then plot_curve n y0 pngData valuesPerPixel (entry rows)
          else plot_surface n pngData valuesPerPixel (entry rows))"

subsection \<open>libpng and the file\<close>

text \<open>
  libpng and the C library are outside this program. What the program sees of them is
  whether a call succeeds, which the environment decides, and what \<^verbatim>\<open>malloc\<close> and the
  stack happen to hold. \<open>tinyexpr\<close> is \<^verbatim>\<open>te_compile\<close>; the \<open>_ok\<close> fields say
  whether \<^verbatim>\<open>fopen\<close> and the libpng calls succeed (libpng reports an error by a jump
  back to the last \<^verbatim>\<open>setjmp\<close>); \<open>garbage\<close> is the content of freshly allocated
  rows, \<open>stack_y\<close> the content of the variable \<open>y\<close> before it is assigned.
\<close>

record env =
  tinyexpr :: compiler
  fopen_ok :: "string \<Rightarrow> bool"
  create_write_struct_ok :: bool
  create_info_struct_ok :: bool
  init_io_ok :: bool
  set_IHDR_ok :: bool
  write_image_ok :: bool
  write_end_ok :: bool
  garbage :: "nat \<Rightarrow> nat \<Rightarrow> png_byte"
  stack_y :: fp

text \<open>
  What the process does to the world, in order: lines on the two streams, and the
  operations on the output file. \<open>Fopen\<close> is a successful \<^verbatim>\<open>fopen(fileName, "wb")\<close>,
  which creates the file or empties it.
\<close>

datatype event =
    Stdout message
  | Stderr message
  | Fopen string
  | WriteInfo
  | WriteImage image
  | WriteEnd
  | Fclose

text \<open>How the process ends: \<^verbatim>\<open>return 0\<close> from \<open>main\<close>, \<^verbatim>\<open>abort()\<close>, or a fault.\<close>

datatype ending = Exit int | Aborted | Faulted fault

definition PNG_COLOR_TYPE_RGB :: png_byte where
  "PNG_COLOR_TYPE_RGB = 2"

text \<open>\<^verbatim>\<open>png_get_channels\<close> and \<^verbatim>\<open>png_get_rowbytes\<close>, from libpng's table of colour types.\<close>

definition png_get_channels :: "PNG \<Rightarrow> int" where
  "png_get_channels pngData =
     (if colourType pngData = 2 then 3
      else if colourType pngData = 4 then 2
      else if colourType pngData = 6 then 4
      else 1)"

definition png_get_rowbytes :: "PNG \<Rightarrow> nat" where
  "png_get_rowbytes pngData =
     (nat (imgWidth pngData) * nat (png_get_channels pngData) * unat (bitDepth pngData) + 7) div 8"

definition allocateImageMemory :: "env \<Rightarrow> PNG \<Rightarrow> image" where
  "allocateImageMemory e pngData =
     map (\<lambda>y. map (garbage e y) [0..<png_get_rowbytes pngData]) [0..<nat (imgHeight pngData)]"

text \<open>Each of the three writers returns its events, \<open>Inl\<close> when it ends in \<^verbatim>\<open>abortProgram\<close>.\<close>

definition writePngFileHeader :: "env \<Rightarrow> string \<Rightarrow> PNG \<Rightarrow> event list + event list" where
  "writePngFileHeader e fileName pngData =
     (if \<not> fopen_ok e fileName then Inl [Stderr (FileNotOpened fileName)]
      else if \<not> create_write_struct_ok e then Inl [Fopen fileName, Stderr CreateWriteStructFailed]
      else if \<not> create_info_struct_ok e then Inl [Fopen fileName, Stderr CreateInfoStructFailed]
      else if \<not> init_io_ok e then Inl [Fopen fileName, Stderr ErrorDuringInitIo]
      else if \<not> set_IHDR_ok e then Inl [Fopen fileName, Stderr ErrorDuringWritingHeader]
      else Inr [Fopen fileName])"

definition writePngFileData :: "env \<Rightarrow> image \<Rightarrow> event list + event list" where
  "writePngFileData e rows =
     (if \<not> write_image_ok e then Inl [WriteInfo, Stderr ErrorDuringWritingBytes]
      else Inr [WriteInfo, WriteImage rows])"

definition writePngFileTrailer :: "env \<Rightarrow> event list + event list" where
  "writePngFileTrailer e =
     (if \<not> write_end_ok e then Inl [Stderr ErrorDuringEndOfWrite]
      else Inr [WriteEnd, Fclose])"

subsection \<open>main\<close>

text \<open>\<open>argv\<close> is the whole argument vector, the program's name first; \<open>argc\<close> is its length.\<close>

definition main :: "env \<Rightarrow> string list \<Rightarrow> ending \<times> event list" where
  "main e argv =
     (let pngData = \<lparr>imgWidth = 300, imgHeight = 300,
                     colourType = PNG_COLOR_TYPE_RGB, bitDepth = 8\<rparr>
      in
      if length argv \<noteq> 3 then (Aborted, [Stdout ProgramAborted, Stderr IncorrectArguments])
      else if strstr (argv ! 1) ''.png'' = None
      then (Aborted, [Stdout ProgramAborted, Stderr InvalidFileName])
      else if strchr (argv ! 2) CHR ''='' \<noteq> None
      then (Aborted, [Stdout ProgramAborted, Stderr InvalidExpression])
      else
        let w1 = (if strchr (argv ! 2) CHR ''y'' \<noteq> None \<and> strchr (argv ! 2) CHR ''x'' = None
                  then [Stderr NoXVariable] else []);
            w2 = (if imgHeight pngData > 1400 \<or> imgWidth pngData > 1400
                  then [Stderr LargeDimensions] else [])
        in
        case writePngFileHeader e (argv ! 1) pngData of
          Inl evs \<Rightarrow> (Aborted, w1 @ w2 @ evs)
        | Inr header \<Rightarrow>
        (case makeImageData (tinyexpr e) (stack_y e) pngData (png_get_channels pngData)
                (allocateImageMemory e pngData) (argv ! 2) of
          Inl (Abort CompileFailed, s) \<Rightarrow>
            (Aborted, w1 @ w2 @ header @ [Stdout ProgramAborted, Stderr CompileFailed])
        | Inl (Abort m, s) \<Rightarrow> (Aborted, w1 @ w2 @ header @ [Stderr m])
        | Inl (Undefined f, s) \<Rightarrow> (Faulted f, w1 @ w2 @ header)
        | Inr s \<Rightarrow>
        (case writePngFileData e (rowPointers s) of
          Inl evs \<Rightarrow> (Aborted, w1 @ w2 @ header @ evs)
        | Inr data \<Rightarrow>
        (case writePngFileTrailer e of
          Inl evs \<Rightarrow> (Aborted, w1 @ w2 @ header @ data @ evs)
        | Inr trailer \<Rightarrow>
            (Exit 0, w1 @ w2 @ header @ data @ trailer
                       @ [Stdout (SuccessfullyCreated (argv ! 1))])))))"

text \<open>The events that open, write or close the output file.\<close>

fun on_file :: "event \<Rightarrow> bool" where
  "on_file (Stdout m) = False"
| "on_file (Stderr m) = False"
| "on_file ev = True"

subsection \<open>Inputs for the examples\<close>

text \<open>
  A compiler for the examples: on the expressions used below it returns what tinyexpr
  compiles them to, each operation a \<^verbatim>\<open>double\<close> operation and each constant the
  \<^verbatim>\<open>double\<close> nearest to its decimal text, and it rejects every other text, among them
  \<open>y+\<close>, which is not an expression.
\<close>

definition examples :: compiler where
  "examples expression =
     (if expression = ''x'' then Some (\<lambda>x y. x)
      else if expression = ''2'' then Some (\<lambda>x y. Finite 2)
      else if expression = ''x+y'' then Some (\<lambda>x y. fadd to_double x y)
      else if expression = ''5+0*y''
      then Some (\<lambda>x y. fadd to_double (Finite 5) (fmul to_double (Finite 0) y))
      else if expression = ''x-1'' then Some (\<lambda>x y. fsub to_double x (Finite 1))
      else if expression = ''-0.001'' then Some (\<lambda>x y. fneg (to_double (1 / 1000)))
      else if expression = ''y/x'' then Some (\<lambda>x y. fdiv to_double y x)
      else if expression = ''x+0/(0.5-y)''
      then Some (\<lambda>x y. fadd to_double x
                   (fdiv to_double (Finite 0) (fsub to_double (Finite (1 / 2)) y)))
      else None)"

text \<open>An environment in which every library call succeeds and fresh memory is zero.\<close>

definition cooperative :: env where
  "cooperative = \<lparr>tinyexpr = examples, fopen_ok = (\<lambda>fileName. True),
     create_write_struct_ok = True, create_info_struct_ok = True, init_io_ok = True,
     set_IHDR_ok = True, write_image_ok = True, write_end_ok = True,
     garbage = (\<lambda>y k. 0), stack_y = Finite 0\<rparr>"

definition rgb :: "int \<Rightarrow> int \<Rightarrow> PNG" where
  "rgb w h = \<lparr>imgWidth = w, imgHeight = h, colourType = PNG_COLOR_TYPE_RGB, bitDepth = 8\<rparr>"

text \<open>A buffer of \<open>h\<close> rows of \<open>w\<close> RGB pixels, all bytes zero.\<close>

definition blank :: "nat \<Rightarrow> nat \<Rightarrow> image" where
  "blank w h = replicate h (replicate (3 * w) 0)"

subsection \<open>Notions for the proofs\<close>

text \<open>The finite values of the format with precision \<open>p\<close> and exponent width \<open>w\<close>.\<close>

definition dyadic :: "nat \<Rightarrow> nat \<Rightarrow> real \<Rightarrow> bool" where
  "dyadic p w v \<longleftrightarrow>
     (\<exists>m e. v = of_int m * 2 powi e \<and> \<bar>m\<bar> < 2 ^ p \<and> emin w - (int p - 1) \<le> e)"

text \<open>
  The state while the background is coloured, when rows \<open>0..<i\<close> and the pixels
  \<open>0..<j\<close> of row \<open>i\<close> are done: nothing has been sampled, the rows have kept their
  lengths, and the pixels done are white.
\<close>

definition whitened :: "image \<Rightarrow> nat \<Rightarrow> nat \<Rightarrow> nat \<Rightarrow> locals \<Rightarrow> bool" where
  "whitened rows W i j s \<longleftrightarrow>
     x_incr s = Finite 0 \<and> evals s = []
   \<and> map length (rowPointers s) = map length rows
   \<and> (\<forall>a b. a < i \<and> b < W \<or> a = i \<and> b < j \<longrightarrow>
          pixel_at 3 (rowPointers s) a b = (255, 255, 255))"

text \<open>
  The value of a \<^verbatim>\<open>float\<close> variable that starts at 0 after \<open>k\<close> additions of
  \<^verbatim>\<open>1.0 / n\<close>, and the bound on the error of one addition below \<open>2 ^ j\<close>.
\<close>

primrec position :: "int \<Rightarrow> nat \<Rightarrow> fp" where
  "position n 0 = Finite 0"
| "position n (Suc k) = advance (increment n) (position n k)"

definition eps :: "int \<Rightarrow> real" where
  "eps j = 2 powi (j - 25) + 2 powi (j - 53)"

text \<open>
  The arguments of the first \<open>i\<close> rows of samples and of the first \<open>j\<close> samples of
  row \<open>i\<close> on a grid of \<open>N\<close> by \<open>N\<close>, in the order of the two nested loops, and the
  value stored for cell \<open>(i, j)\<close>: the result there, converted to \<^verbatim>\<open>float\<close>.
\<close>

definition cells :: "nat \<Rightarrow> nat \<Rightarrow> nat \<Rightarrow> (fp \<times> fp) list" where
  "cells N i j =
     concat (map (\<lambda>a. map (\<lambda>b. (position (int N) a, position (int N) b)) [0..<N]) [0..<i])
       @ map (\<lambda>b. (position (int N) i, position (int N) b)) [0..<j]"

definition stored :: "te_expr \<Rightarrow> nat \<Rightarrow> nat \<Rightarrow> nat \<Rightarrow> fp" where
  "stored n N i j = narrow to_float (n (position (int N) i) (position (int N) j))"

text \<open>Cell \<open>(a, b)\<close> is in the rows \<open>0..<i\<close> or among the cells \<open>0..<j\<close> of row \<open>i\<close>.\<close>

definition visited :: "nat \<Rightarrow> nat \<Rightarrow> nat \<Rightarrow> nat \<Rightarrow> nat \<Rightarrow> bool" where
  "visited N i j a b \<longleftrightarrow> a < i \<and> b < N \<or> a = i \<and> b < j"

text \<open>
  What \<open>min\<close> and \<open>max\<close> are when these cells are done. A comparison with a NaN is
  false: when the first value is a NaN, both stay a NaN; otherwise each is one of the
  values stored so far, and bounds all of them that are not a NaN.
\<close>

definition extremes :: "te_expr \<Rightarrow> nat \<Rightarrow> nat \<Rightarrow> nat \<Rightarrow> fp \<Rightarrow> fp \<Rightarrow> bool" where
  "extremes n N i j mn mx \<longleftrightarrow>
     (if stored n N 0 0 = NaN then mn = NaN \<and> mx = NaN
      else (\<exists>a b. visited N i j a b \<and> mn = stored n N a b)
         \<and> (\<exists>a b. visited N i j a b \<and> mx = stored n N a b)
         \<and> (\<forall>a b. visited N i j a b \<and> stored n N a b \<noteq> NaN \<longrightarrow>
                fle mn (stored n N a b) \<and> fle (stored n N a b) mx))"

text \<open>
  The state of the first pass when it has done these cells: where \<open>x_incr\<close> stands,
  what has been evaluated and stored, and what \<open>min\<close> and \<open>max\<close> are.
\<close>

definition sampled :: "te_expr \<Rightarrow> nat \<Rightarrow> image \<Rightarrow> nat \<Rightarrow> nat \<Rightarrow> locals \<Rightarrow> bool" where
  "sampled n N rows i j s \<longleftrightarrow>
     x_incr s = position (int N) i
   \<and> evals s = cells N i j
   \<and> z_values s = (\<lambda>(a, b). if visited N i j a b then Some (stored n N a b) else None)
   \<and> (visited N i j 0 0 \<longrightarrow> extremes n N i j (min_v s) (max_v s))
   \<and> rowPointers s = rows"

text \<open>The state an outcome ends in.\<close>

definition final :: "outcome \<Rightarrow> locals" where
  "final r = (case r of Inl (e, s) \<Rightarrow> s | Inr s \<Rightarrow> s)"

text \<open>
  The colour the second pass gives to a cell with the value \<open>z\<close>, when both channel
  values convert to a byte.
\<close>

definition shade :: "fp \<Rightarrow> fp \<Rightarrow> fp \<Rightarrow> (png_byte \<times> png_byte \<times> png_byte) option" where
  "shade mn mx z =
     (case to_byte (red_of (normalise mn mx z)) of
        None \<Rightarrow> None
      | Some red \<Rightarrow>
          (case to_byte (blue_of (normalise mn mx z)) of
             None \<Rightarrow> None
           | Some blue \<Rightarrow> Some (red, 0, blue)))"

text \<open>
  The state of the second pass when it has done rows \<open>0..<i\<close> and the cells \<open>0..<j\<close>
  of row \<open>i\<close>: only the image has changed, its rows have kept their lengths, and the
  cells done have their colours.
\<close>

definition coloured :: "locals \<Rightarrow> nat \<Rightarrow> nat \<Rightarrow> nat \<Rightarrow> locals \<Rightarrow> bool" where
  "coloured s1 N i j s \<longleftrightarrow>
     z_values s = z_values s1 \<and> min_v s = min_v s1 \<and> max_v s = max_v s1
   \<and> evals s = evals s1
   \<and> map length (rowPointers s) = map length (rowPointers s1)
   \<and> (\<forall>a b. visited N i j a b \<longrightarrow>
          (\<exists>z. z_values s1 (a, b) = Some z
             \<and> shade (min_v s1) (max_v s1) z
                 = Some (pixel_at 3 (rowPointers s) (N - 1 - a) b)))"

text \<open>
  The column of sample \<open>k\<close> of the curve on an image of width \<open>W\<close>: the \<^verbatim>\<open>float\<close>
  product of \<open>x_incr\<close> and the width, converted to \<^verbatim>\<open>long int\<close>.
\<close>

definition column :: "nat \<Rightarrow> nat \<Rightarrow> nat" where
  "column W k =
     (case to_long (fmul to_float (position (int (W * 50)) k) (float_of_int (int W))) of
        Some c \<Rightarrow> nat c
      | None \<Rightarrow> 0)"

text \<open>
  The state of the curve loop after \<open>k\<close> samples all of which fell into the bottom row:
  where \<open>x_incr\<close> stands, what has been evaluated, and that the bottom pixel of the
  column of every sample so far is blue.
\<close>

definition bottom :: "fp \<Rightarrow> image \<Rightarrow> nat \<Rightarrow> nat \<Rightarrow> nat \<Rightarrow> locals \<Rightarrow> bool" where
  "bottom y0 rows W H k s \<longleftrightarrow>
     x_incr s = position (int (W * 50)) k
   \<and> evals s = map (\<lambda>i. (position (int (W * 50)) i, y0)) [0..<k]
   \<and> map length (rowPointers s) = map length rows
   \<and> (\<forall>j<k. pixel_at 3 (rowPointers s) (H - 1) (column W j) = (0, 0, 255))"

text \<open>
  The state of the curve loop after \<open>k\<close> samples all of which were dropped: every pixel
  is still white.
\<close>

definition untouched :: "fp \<Rightarrow> image \<Rightarrow> nat \<Rightarrow> nat \<Rightarrow> nat \<Rightarrow> locals \<Rightarrow> bool" where
  "untouched y0 rows W H k s \<longleftrightarrow>
     x_incr s = position (int (W * 50)) k
   \<and> evals s = map (\<lambda>i. (position (int (W * 50)) i, y0)) [0..<k]
   \<and> map length (rowPointers s) = map length rows
   \<and> (\<forall>r<H. \<forall>c<W. pixel_at 3 (rowPointers s) r c = (255, 255, 255))"

section \<open>Properties\<close>

subsection \<open>Rounding\<close>

lemma nearest_even_int [simp]: "nearest_even (of_int k) = k"
  by (simp add: nearest_even_def)

lemma nearest_even_0 [simp]: "nearest_even 0 = 0"
  using nearest_even_int [of 0] by simp

lemma nearest_even_lower: "\<lfloor>r\<rfloor> \<le> nearest_even r"
  by (simp add: nearest_even_def)

lemma nearest_even_upper: "nearest_even r \<le> \<lfloor>r\<rfloor> + 1"
  by (simp add: nearest_even_def)

lemma nearest_even_mono:
  assumes "r \<le> s"
  shows "nearest_even r \<le> nearest_even s"
proof (cases "\<lfloor>r\<rfloor> = \<lfloor>s\<rfloor>")
  case True
  then show ?thesis using assms by (auto simp add: nearest_even_def)
next
  case False
  then have "\<lfloor>r\<rfloor> + 1 \<le> \<lfloor>s\<rfloor>" using floor_mono [OF assms] by simp
  then show ?thesis
    using nearest_even_upper [of r] nearest_even_lower [of s] by linarith
qed

lemma nearest_even_error: "\<bar>of_int (nearest_even r) - r\<bar> \<le> 1 / 2"
proof -
  have "of_int \<lfloor>r\<rfloor> \<le> r" "r < of_int \<lfloor>r\<rfloor> + 1" by linarith+
  then show ?thesis by (auto simp add: nearest_even_def)
qed

lemma nearest_even_minus: "nearest_even (- r) = - nearest_even r"
proof (cases "r = of_int \<lfloor>r\<rfloor>")
  case True
  then obtain k where "r = of_int k" by blast
  then have "- r = of_int (- k)" by simp
  then show ?thesis using \<open>r = of_int k\<close> by (simp only: nearest_even_int)
next
  case False
  then have f: "\<lfloor>- r\<rfloor> = - \<lfloor>r\<rfloor> - 1"
    by (simp add: floor_minus ceiling_altdef)
  have "of_int \<lfloor>r\<rfloor> \<le> r" "r < of_int \<lfloor>r\<rfloor> + 1" by linarith+
  then show ?thesis
    unfolding nearest_even_def f by auto
qed

lemma ilog2_range: "lo \<le> ilog2 d lo x \<and> ilog2 d lo x < lo + 2 ^ d"
proof (induction d arbitrary: lo)
  case 0
  show ?case by simp
next
  case (Suc d)
  from Suc [of lo] Suc [of "lo + 2 ^ d"] show ?case by auto
qed

lemma ilog2_lower: "lo < ilog2 d lo x \<Longrightarrow> 2 powi (ilog2 d lo x) \<le> x"
proof (induction d arbitrary: lo)
  case 0
  then show ?case by simp
next
  case (Suc d)
  show ?case
  proof (cases "2 powi (lo + 2 ^ d) \<le> x")
    case True
    then have k: "ilog2 (Suc d) lo x = ilog2 d (lo + 2 ^ d) x" by simp
    show ?thesis
    proof (cases "lo + 2 ^ d < ilog2 d (lo + 2 ^ d) x")
      case True
      from Suc.IH [OF this] show ?thesis by (simp only: k)
    next
      case False
      then have "ilog2 d (lo + 2 ^ d) x = lo + 2 ^ d"
        using ilog2_range [of "lo + 2 ^ d" d x] by simp
      with True show ?thesis by (simp only: k)
    qed
  next
    case False
    then have k: "ilog2 (Suc d) lo x = ilog2 d lo x" by simp
    with Suc.prems have "lo < ilog2 d lo x" by simp
    from Suc.IH [OF this] show ?thesis by (simp only: k)
  qed
qed

lemma ilog2_upper: "x < 2 powi (lo + 2 ^ d) \<Longrightarrow> x < 2 powi (ilog2 d lo x + 1)"
proof (induction d arbitrary: lo)
  case 0
  then show ?case by simp
next
  case (Suc d)
  show ?case
  proof (cases "2 powi (lo + 2 ^ d) \<le> x")
    case True
    from Suc.prems have "x < 2 powi (lo + 2 ^ d + 2 ^ d)" by (simp add: add.assoc)
    from Suc.IH [OF this] True show ?thesis by simp
  next
    case False
    then have "x < 2 powi (lo + 2 ^ d)" by simp
    from Suc.IH [OF this] False show ?thesis by simp
  qed
qed

lemma ilog2_top: "2 powi (lo + 2 ^ d - 1) \<le> x \<Longrightarrow> ilog2 d lo x = lo + 2 ^ d - 1"
proof (induction d arbitrary: lo)
  case 0
  then show ?case by simp
next
  case (Suc d)
  have "(2::real) powi (lo + 2 ^ d) \<le> 2 powi (lo + 2 ^ Suc d - 1)"
    by (rule power_int_increasing) simp_all
  with Suc.prems have up: "2 powi (lo + 2 ^ d) \<le> x" by simp
  from Suc.prems have "2 powi (lo + 2 ^ d + 2 ^ d - 1) \<le> x" by (simp add: add.assoc)
  from Suc.IH [OF this] up show ?case by simp
qed

lemma ilog2_mono: "x \<le> y \<Longrightarrow> ilog2 d lo x \<le> ilog2 d lo y"
proof (induction d arbitrary: lo)
  case 0
  show ?case by simp
next
  case (Suc d)
  show ?case
  proof (cases "2 powi (lo + 2 ^ d) \<le> x")
    case True
    with Suc.prems have "2 powi (lo + 2 ^ d) \<le> y" by simp
    with True Suc.IH [OF Suc.prems, of "lo + 2 ^ d"] show ?thesis by simp
  next
    case False
    show ?thesis
    proof (cases "2 powi (lo + 2 ^ d) \<le> y")
      case True
      with False ilog2_range [of lo d x] ilog2_range [of "lo + 2 ^ d" d y]
      show ?thesis by simp
    next
      case no: False
      with False Suc.IH [OF Suc.prems, of lo] show ?thesis by simp
    qed
  qed
qed

lemma quantum_lower: "emin w - (int p - 1) \<le> quantum p w x"
  using ilog2_range [of "emin w" w "\<bar>x\<bar>"] by (simp add: quantum_def)

lemma quantum_mono: "\<bar>x\<bar> \<le> \<bar>y\<bar> \<Longrightarrow> quantum p w x \<le> quantum p w y"
  using ilog2_mono [of "\<bar>x\<bar>" "\<bar>y\<bar>" w "emin w"] by (simp add: quantum_def)

lemma quantum_minus [simp]: "quantum p w (- x) = quantum p w x"
  by (simp add: quantum_def)

lemma rnd_minus: "rnd p w (- x) = - rnd p w x"
  by (simp add: rnd_def nearest_even_minus)

lemma rnd_0 [simp]: "rnd p w 0 = 0"
  by (simp add: rnd_def)

lemma rnd_nonneg: "0 \<le> x \<Longrightarrow> 0 \<le> rnd p w x"
proof -
  assume "0 \<le> x"
  then have "0 \<le> x / 2 powi quantum p w x" by simp
  from nearest_even_mono [OF this] have "0 \<le> nearest_even (x / 2 powi quantum p w x)"
    by simp
  then show ?thesis by (simp add: rnd_def)
qed

lemma rnd_nonpos: "x \<le> 0 \<Longrightarrow> rnd p w x \<le> 0"
  using rnd_nonneg [of "- x" p w] by (simp add: rnd_minus)

text \<open>A multiple of the quantum is not moved.\<close>

lemma rnd_multiple:
  assumes "quantum p w x \<le> e"
  shows "x \<le> of_int m * 2 powi e \<Longrightarrow> rnd p w x \<le> of_int m * 2 powi e"
    and "of_int m * 2 powi e \<le> x \<Longrightarrow> of_int m * 2 powi e \<le> rnd p w x"
proof -
  define q where "q = quantum p w x"
  define k where "k = m * 2 ^ nat (e - q)"
  have qpos: "(0::real) < 2 powi q" by simp
  have "(2::real) powi e = 2 powi (e - q) * 2 powi q"
    by (simp flip: power_int_add)
  moreover have "(2::real) powi (e - q) = 2 ^ nat (e - q)"
    using assms by (simp add: q_def power_int_def)
  ultimately have v: "real_of_int m * 2 powi e = real_of_int k * 2 powi q"
    by (simp add: k_def)
  show "rnd p w x \<le> of_int m * 2 powi e" if "x \<le> of_int m * 2 powi e"
  proof -
    from that have "x / 2 powi q \<le> of_int k" using qpos by (simp add: v pos_divide_le_eq)
    from nearest_even_mono [OF this] have "nearest_even (x / 2 powi q) \<le> k" by simp
    then have "real_of_int (nearest_even (x / 2 powi q)) * 2 powi q \<le> of_int k * 2 powi q"
      by (intro mult_right_mono) simp_all
    then show ?thesis by (simp add: rnd_def q_def [symmetric] v)
  qed
  show "of_int m * 2 powi e \<le> rnd p w x" if "of_int m * 2 powi e \<le> x"
  proof -
    from that have "of_int k \<le> x / 2 powi q" using qpos by (simp add: v pos_le_divide_eq)
    from nearest_even_mono [OF this] have "k \<le> nearest_even (x / 2 powi q)" by simp
    then have "real_of_int k * 2 powi q \<le> of_int (nearest_even (x / 2 powi q)) * 2 powi q"
      by (intro mult_right_mono) simp_all
    then show ?thesis by (simp add: rnd_def q_def [symmetric] v)
  qed
qed

lemma dyadic_quantum:
  assumes "v = of_int m * 2 powi e" "\<bar>m\<bar> < 2 ^ p" "emin w - (int p - 1) \<le> e" "m \<noteq> 0"
  shows "quantum p w v \<le> e"
proof -
  define E where "E = ilog2 w (emin w) \<bar>v\<bar>"
  show ?thesis
  proof (cases "emin w < E")
    case False
    then have "E = emin w" using ilog2_range [of "emin w" w "\<bar>v\<bar>"] by (simp add: E_def)
    then show ?thesis using assms(3) by (simp add: quantum_def E_def)
  next
    case True
    then have "2 powi E \<le> \<bar>v\<bar>" unfolding E_def by (rule ilog2_lower)
    also have "\<bar>v\<bar> = real_of_int \<bar>m\<bar> * 2 powi e"
      by (simp add: assms(1) abs_mult)
    also have "\<dots> < 2 ^ p * 2 powi e"
    proof -
      have "real_of_int \<bar>m\<bar> < real_of_int (2 ^ p)" using assms(2) by (simp only: of_int_less_iff)
      then show ?thesis by simp
    qed
    also have "\<dots> = 2 powi (int p + e)" by (simp add: power_int_add)
    finally have "(2::real) powi E < 2 powi (int p + e)" .
    then have "E < int p + e"
      by (metis linorder_not_less one_le_numeral power_int_increasing)
    then show ?thesis by (simp add: quantum_def E_def)
  qed
qed

lemma rnd_dyadic:
  assumes "dyadic p w v"
  shows "rnd p w v = v"
proof -
  from assms obtain m e where v: "v = of_int m * 2 powi e" and m: "\<bar>m\<bar> < 2 ^ p"
    and e: "emin w - (int p - 1) \<le> e" by (auto simp add: dyadic_def)
  show ?thesis
  proof (cases "m = 0")
    case True
    then show ?thesis by (simp add: v)
  next
    case False
    have q: "quantum p w v \<le> e" using v m e False by (rule dyadic_quantum)
    from rnd_multiple [OF q, of m] have "rnd p w v \<le> v" "v \<le> rnd p w v"
      by (simp_all add: v)
    then show ?thesis by simp
  qed
qed

lemma rnd_mono_pos:
  assumes p: "0 < p" and x: "0 < x" "x \<le> y"
  shows "rnd p w x \<le> rnd p w y"
proof -
  define Ex where "Ex = ilog2 w (emin w) x"
  define Ey where "Ey = ilog2 w (emin w) y"
  have qx: "quantum p w x = Ex - (int p - 1)" and qy: "quantum p w y = Ey - (int p - 1)"
    using x by (simp_all add: quantum_def Ex_def Ey_def)
  have le: "Ex \<le> Ey" unfolding Ex_def Ey_def using x(2) by (rule ilog2_mono)
  show ?thesis
  proof (cases "Ex = Ey")
    case True
    then have q: "quantum p w x = quantum p w y" by (simp add: qx qy)
    have "x / 2 powi quantum p w y \<le> y / 2 powi quantum p w y"
      using x(2) by (simp add: divide_right_mono)
    from nearest_even_mono [OF this]
    have "real_of_int (nearest_even (x / 2 powi quantum p w y)) * 2 powi quantum p w y
        \<le> real_of_int (nearest_even (y / 2 powi quantum p w y)) * 2 powi quantum p w y"
      by (intro mult_right_mono) simp_all
    then show ?thesis by (simp add: rnd_def q)
  next
    case False
    with le have lt: "Ex < Ey" by simp
    have r: "emin w \<le> Ex" "Ey < emin w + 2 ^ w"
      using ilog2_range [of "emin w" w x] ilog2_range [of "emin w" w y]
      by (simp_all add: Ex_def Ey_def)
    have "emin w < Ey" using lt r by simp
    then have By: "2 powi Ey \<le> y" unfolding Ey_def by (rule ilog2_lower)
    have "\<not> 2 powi (emin w + 2 ^ w - 1) \<le> x"
    proof
      assume "2 powi (emin w + 2 ^ w - 1) \<le> x"
      then have "Ex = emin w + 2 ^ w - 1" unfolding Ex_def by (rule ilog2_top)
      with lt r show False by simp
    qed
    then have "x < 2 powi (emin w + 2 ^ w - 1)" by simp
    also have "(2::real) powi (emin w + 2 ^ w - 1) \<le> 2 powi (emin w + 2 ^ w)"
      by (rule power_int_increasing) simp_all
    finally have "x < 2 powi (Ex + 1)" unfolding Ex_def by (rule ilog2_upper)
    also have "(2::real) powi (Ex + 1) \<le> 2 powi Ey"
      using lt by (intro power_int_increasing) simp_all
    finally have xB: "x \<le> 2 powi Ey" by simp
    have "quantum p w x \<le> Ey" using lt p by (simp add: qx)
    from rnd_multiple(1) [OF this, of 1] xB have 1: "rnd p w x \<le> 2 powi Ey" by simp
    have "quantum p w y \<le> Ey" using p by (simp add: qy)
    from rnd_multiple(2) [OF this, of 1] By have 2: "2 powi Ey \<le> rnd p w y" by simp
    from 1 2 show ?thesis by simp
  qed
qed

lemma rnd_mono:
  assumes "0 < p" and "x \<le> y"
  shows "rnd p w x \<le> rnd p w y"
proof -
  consider "0 < x" | "x \<le> 0" "0 \<le> y" | "y < 0" by linarith
  then show ?thesis
  proof cases
    case 1
    then show ?thesis using assms by (intro rnd_mono_pos)
  next
    case 2
    then show ?thesis using rnd_nonpos [of x p w] rnd_nonneg [of y p w] by simp
  next
    case 3
    then have "0 < - y" "- y \<le> - x" using assms(2) by simp_all
    from rnd_mono_pos [OF assms(1) this] show ?thesis by (simp add: rnd_minus)
  qed
qed

lemma rnd_le_dyadic: "0 < p \<Longrightarrow> dyadic p w v \<Longrightarrow> x \<le> v \<Longrightarrow> rnd p w x \<le> v"
  using rnd_mono [of p x v w] by (simp add: rnd_dyadic)

lemma rnd_ge_dyadic: "0 < p \<Longrightarrow> dyadic p w v \<Longrightarrow> v \<le> x \<Longrightarrow> v \<le> rnd p w x"
  using rnd_mono [of p v x w] by (simp add: rnd_dyadic)

lemma rnd_error: "\<bar>rnd p w x - x\<bar> \<le> 2 powi quantum p w x / 2"
proof -
  define q where "q = (2::real) powi quantum p w x"
  have q: "0 < q" by (simp add: q_def)
  have "rnd p w x - x = (real_of_int (nearest_even (x / q)) - x / q) * q"
    using q by (simp add: rnd_def q_def [symmetric] left_diff_distrib)
  then have "\<bar>rnd p w x - x\<bar> = \<bar>real_of_int (nearest_even (x / q)) - x / q\<bar> * q"
    using q by (simp add: abs_mult)
  also have "\<dots> \<le> 1 / 2 * q"
    using nearest_even_error [of "x / q"] q by (intro mult_right_mono) simp_all
  finally show ?thesis by (simp add: q_def)
qed

lemma quantum_below:
  assumes "\<bar>x\<bar> < 2 powi j" and "emin w < j"
  shows "quantum p w x \<le> j - int p"
proof -
  define E where "E = ilog2 w (emin w) \<bar>x\<bar>"
  have "E < j"
  proof (rule ccontr)
    assume "\<not> E < j"
    then have j: "j \<le> E" by simp
    with assms(2) have "emin w < E" by simp
    then have "2 powi E \<le> \<bar>x\<bar>" unfolding E_def by (rule ilog2_lower)
    moreover have "(2::real) powi j \<le> 2 powi E" using j by (intro power_int_increasing) simp_all
    ultimately show False using assms(1) by simp
  qed
  then show ?thesis by (simp add: quantum_def E_def)
qed

lemma rnd_error_below:
  assumes "\<bar>x\<bar> < 2 powi j" and "emin w < j"
  shows "\<bar>rnd p w x - x\<bar> \<le> 2 powi (j - int p - 1)"
proof -
  have "(2::real) powi quantum p w x \<le> 2 powi (j - int p)"
    using quantum_below [OF assms] by (intro power_int_increasing) simp_all
  then have "(2::real) powi quantum p w x / 2 \<le> 2 powi (j - int p) / 2" by simp
  also have "(2::real) powi (j - int p) / 2 = 2 powi (j - int p - 1)"
    by (simp add: power_int_diff)
  finally show ?thesis using rnd_error [of p w x] by simp
qed

lemma round_to_not_NaN [simp]: "round_to p w x \<noteq> NaN"
  by (simp add: round_to_def)

lemma round_to_mono:
  assumes "0 < p" and "x \<le> y"
  shows "fle (round_to p w x) (round_to p w y)"
  using rnd_mono [OF assms, of w] by (auto simp add: round_to_def)

lemma dyadic_pow: "0 < p \<Longrightarrow> emin w - (int p - 1) \<le> e \<Longrightarrow> dyadic p w (2 powi e)"
  unfolding dyadic_def by (intro exI [of _ 1] exI [of _ e]) simp

lemma dyadic_minus: "dyadic p w v \<Longrightarrow> dyadic p w (- v)"
  unfolding dyadic_def
  by (metis abs_minus_cancel mult_minus_left of_int_minus)

lemma dyadic_0 [simp]: "dyadic p w 0"
  unfolding dyadic_def by (intro exI [of _ 0] exI [of _ "emin w - (int p - 1)"]) simp

lemma round_to_dyadic:
  assumes "dyadic p w v" and "\<bar>v\<bar> < 2 powi (emax w + 1)"
  shows "round_to p w v = Finite v"
  using assms by (simp add: round_to_def rnd_dyadic abs_less_iff)

lemma round_to_finite:
  assumes p: "0 < p" and x: "\<bar>x\<bar> \<le> 2 powi j" and j: "emin w - (int p - 1) \<le> j" "j \<le> emax w"
  shows "round_to p w x = Finite (rnd p w x) \<and> \<bar>rnd p w x\<bar> \<le> 2 powi j"
proof -
  have d: "dyadic p w (2 powi j)" using p j(1) by (rule dyadic_pow)
  have "rnd p w x \<le> 2 powi j" using x by (intro rnd_le_dyadic [OF p d]) simp
  moreover have "- (2 powi j) \<le> rnd p w x"
    using x by (intro rnd_ge_dyadic [OF p dyadic_minus [OF d]]) simp
  moreover have "(2::real) powi j < 2 powi (emax w + 1)"
    using j(2) by (intro power_int_strict_increasing) simp_all
  ultimately show ?thesis by (simp add: round_to_def abs_le_iff)
qed

lemma emin_top: "0 < w \<Longrightarrow> emin w + 2 ^ w = emax w + 3"
proof -
  assume "0 < w"
  then obtain v where "w = Suc v" by (cases w) simp_all
  then show ?thesis by (simp add: emin_def emax_def)
qed

lemma emin_le_emax: "emin w \<le> emax w + 1"
  by (simp add: emin_def emax_def)

lemma round_to_Finite_dyadic:
  assumes p: "0 < p" and w: "0 < w" and r: "round_to p w x = Finite v"
  shows "dyadic p w v \<and> \<bar>v\<bar> < 2 powi (emax w + 1)"
proof -
  from r have v: "v = rnd p w x" and b: "\<bar>rnd p w x\<bar> < 2 powi (emax w + 1)"
    by (auto simp add: round_to_def abs_less_iff split: if_splits)
  define E where "E = ilog2 w (emin w) \<bar>x\<bar>"
  define q where "q = quantum p w x"
  have qE: "q = E - (int p - 1)" by (simp add: q_def quantum_def E_def)
  have top: "dyadic p w (2 powi (emax w + 1))"
    using p emin_le_emax [of w] by (intro dyadic_pow) simp_all
  have inr: "\<bar>x\<bar> < 2 powi (emax w + 1)"
  proof (rule ccontr)
    assume "\<not> \<bar>x\<bar> < 2 powi (emax w + 1)"
    then consider "2 powi (emax w + 1) \<le> x" | "x \<le> - (2 powi (emax w + 1))" by linarith
    then show False
    proof cases
      case 1
      from rnd_ge_dyadic [OF p top this] b show False by simp
    next
      case 2
      from rnd_le_dyadic [OF p dyadic_minus [OF top] this] b show False by simp
    qed
  qed
  have "(2::real) powi (emax w + 1) \<le> 2 powi (emin w + 2 ^ w)"
    using emin_top [OF w] by (intro power_int_increasing) simp_all
  with inr have "\<bar>x\<bar> < 2 powi (emin w + 2 ^ w)" by simp
  then have up: "\<bar>x\<bar> < 2 powi (E + 1)" unfolding E_def by (rule ilog2_upper)
  have "(2::real) powi (E + 1) = 2 ^ p * 2 powi q"
    by (simp add: qE flip: power_int_add power_int_of_nat)
  with up have x: "x \<le> real_of_int (2 ^ p) * 2 powi q" "real_of_int (- (2 ^ p)) * 2 powi q \<le> x"
    by (simp_all add: abs_less_iff)
  define m where "m = nearest_even (x / 2 powi q)"
  have vm: "v = real_of_int m * 2 powi q" by (simp add: v rnd_def q_def m_def)
  have qq: "quantum p w x \<le> q" by (simp add: q_def)
  from rnd_multiple [OF qq] x have "v \<le> real_of_int (2 ^ p) * 2 powi q"
    and "real_of_int (- (2 ^ p)) * 2 powi q \<le> v" by (simp_all only: v)
  then have up: "real_of_int m * 2 powi q \<le> real_of_int (2 ^ p) * 2 powi q"
    and lo: "real_of_int (- (2 ^ p)) * 2 powi q \<le> real_of_int m * 2 powi q"
    by (simp_all only: vm)
  have qpos: "(0::real) < 2 powi q" by simp
  have "real_of_int m \<le> real_of_int (2 ^ p)" "real_of_int (- (2 ^ p)) \<le> real_of_int m"
    using mult_right_le_imp_le [OF up qpos] mult_right_le_imp_le [OF lo qpos] by blast+
  then have mb: "m \<le> 2 ^ p" "- (2 ^ p) \<le> m" by (simp_all only: of_int_le_iff)
  have ql: "emin w - (int p - 1) \<le> q" unfolding q_def by (rule quantum_lower)
  have "dyadic p w v"
  proof (cases "\<bar>m\<bar> < 2 ^ p")
    case True
    then show ?thesis unfolding dyadic_def using vm ql by blast
  next
    case False
    with mb consider "m = 2 ^ p" | "m = - (2 ^ p)" by linarith
    then show ?thesis
    proof cases
      case 1
      then have "v = 2 powi (int p + q)" by (simp add: vm power_int_add)
      moreover have "dyadic p w (2 powi (int p + q))" using p ql by (intro dyadic_pow) simp_all
      ultimately show ?thesis by simp
    next
      case 2
      then have "v = - (2 powi (int p + q))" by (simp add: vm power_int_add)
      moreover have "dyadic p w (2 powi (int p + q))" using p ql by (intro dyadic_pow) simp_all
      ultimately show ?thesis using dyadic_minus by simp
    qed
  qed
  with b show ?thesis by (simp add: v)
qed

lemma round_to_idem:
  assumes "0 < p" "0 < w" "round_to p w x = Finite v"
  shows "round_to p w v = Finite v"
  using round_to_Finite_dyadic [OF assms] by (simp add: round_to_dyadic)

lemma dyadic_multiple:
  assumes "dyadic p w v"
  shows "\<exists>k. v = real_of_int k * 2 powi (emin w - (int p - 1))"
proof -
  from assms obtain m e where v: "v = of_int m * 2 powi e" and e: "emin w - (int p - 1) \<le> e"
    by (auto simp add: dyadic_def)
  define d where "d = emin w - (int p - 1)"
  have "(2::real) powi e = 2 powi (e - d) * 2 powi d" by (simp flip: power_int_add)
  moreover have "(2::real) powi (e - d) = 2 ^ nat (e - d)"
    using e by (simp add: d_def power_int_def)
  ultimately have "v = real_of_int (m * 2 ^ nat (e - d)) * 2 powi d" by (simp add: v)
  then show ?thesis unfolding d_def by blast
qed

lemma dyadic_gap:
  assumes "dyadic p w a" "dyadic p w b" "a < b"
  shows "2 powi (emin w - (int p - 1)) \<le> b - a"
proof -
  define d where "d = (2::real) powi (emin w - (int p - 1))"
  have d: "0 < d" by (simp add: d_def)
  from dyadic_multiple [OF assms(1)] dyadic_multiple [OF assms(2)]
  obtain k l where a: "a = real_of_int k * d" and b: "b = real_of_int l * d"
    unfolding d_def by blast
  from assms(3) d have "real_of_int k < real_of_int l" by (simp add: a b)
  then have "k + 1 \<le> l" by simp
  then have "real_of_int (k + 1) \<le> real_of_int l" by (simp only: of_int_le_iff)
  then have "real_of_int (k + 1) * d \<le> real_of_int l * d" using d by (intro mult_right_mono) simp_all
  then have "d \<le> b - a" by (simp add: a b algebra_simps)
  then show ?thesis unfolding d_def .
qed

lemma ilog2_eq:
  assumes "2 powi e \<le> x" "x < 2 powi (e + 1)" "lo \<le> e" "e < lo + 2 ^ d"
  shows "ilog2 d lo x = e"
proof -
  have "(2::real) powi (e + 1) \<le> 2 powi (lo + 2 ^ d)"
    using assms(4) by (intro power_int_increasing) simp_all
  with assms(2) have "x < 2 powi (lo + 2 ^ d)" by simp
  then have up: "x < 2 powi (ilog2 d lo x + 1)" by (rule ilog2_upper)
  have le: "e \<le> ilog2 d lo x"
  proof (rule ccontr)
    assume "\<not> e \<le> ilog2 d lo x"
    then have "(2::real) powi (ilog2 d lo x + 1) \<le> 2 powi e"
      by (intro power_int_increasing) simp_all
    with up assms(1) show False by simp
  qed
  have "ilog2 d lo x \<le> e"
  proof (rule ccontr)
    assume n: "\<not> ilog2 d lo x \<le> e"
    with assms(3) have "lo < ilog2 d lo x" by simp
    then have "2 powi (ilog2 d lo x) \<le> x" by (rule ilog2_lower)
    moreover have "(2::real) powi (e + 1) \<le> 2 powi (ilog2 d lo x)"
      using n by (intro power_int_increasing) simp_all
    ultimately show False using assms(2) by simp
  qed
  with le show ?thesis by simp
qed

lemma quantum_at:
  assumes "2 powi e \<le> \<bar>x\<bar>" "\<bar>x\<bar> < 2 powi (e + 1)" "emin w \<le> e" "e \<le> emax w" "0 < w"
  shows "quantum p w x = e - (int p - 1)"
proof -
  have "e < emin w + 2 ^ w" using emin_top [OF assms(5)] assms(4) by simp
  with assms(1,2,3) have "ilog2 w (emin w) \<bar>x\<bar> = e" by (intro ilog2_eq)
  then show ?thesis by (simp add: quantum_def)
qed

lemma round_to_at:
  assumes "2 powi e \<le> \<bar>x\<bar>" "\<bar>x\<bar> < 2 powi (e + 1)" "emin w \<le> e" "e < emax w"
    and "0 < w" "0 < p"
  shows "round_to p w x
     = Finite (of_int (nearest_even (x / 2 powi (e - (int p - 1)))) * 2 powi (e - (int p - 1)))"
proof -
  have q: "quantum p w x = e - (int p - 1)"
    using assms by (intro quantum_at) simp_all
  have "round_to p w x = Finite (rnd p w x) \<and> \<bar>rnd p w x\<bar> \<le> 2 powi (e + 1)"
    using assms by (intro round_to_finite) simp_all
  then show ?thesis by (simp add: rnd_def q)
qed

lemma emin_8 [simp]: "emin 8 = - 126"
  by (simp add: emin_def)

lemma emax_8 [simp]: "emax 8 = 127"
  by (simp add: emax_def)

lemma emin_11 [simp]: "emin 11 = - 1022"
  by (simp add: emin_def)

lemma emax_11 [simp]: "emax 11 = 1023"
  by (simp add: emax_def)

lemma to_float_at:
  assumes "2 powi e \<le> \<bar>x\<bar>" "\<bar>x\<bar> < 2 powi (e + 1)" "- 126 \<le> e" "e < 127"
  shows "to_float x = Finite (of_int (nearest_even (x / 2 powi (e - 23))) * 2 powi (e - 23))"
  using round_to_at [of e x 8 24] assms by (simp add: to_float_def)

lemma to_double_at:
  assumes "2 powi e \<le> \<bar>x\<bar>" "\<bar>x\<bar> < 2 powi (e + 1)" "- 1022 \<le> e" "e < 1023"
  shows "to_double x = Finite (of_int (nearest_even (x / 2 powi (e - 52))) * 2 powi (e - 52))"
  using round_to_at [of e x 11 53] assms by (simp add: to_double_def)

subsection \<open>Comparisons and conversions\<close>

lemma flt_NaN [simp]: "flt a NaN = False"
  by (cases a) simp_all

lemma fle_NaN [simp]: "fle a NaN = False"
  by (cases a) simp_all

lemma fadd_NaN [simp]: "fadd r a NaN = NaN"
  by (cases a) simp_all

lemma fmul_NaN [simp]: "fmul r a NaN = NaN"
  by (cases a) simp_all

lemma fdiv_NaN [simp]: "fdiv r a NaN = NaN"
  by (cases a) simp_all

lemma fsub_NaN [simp]: "fsub r a NaN = NaN" "fsub r NaN b = NaN"
  by (simp_all add: fsub_def)

lemma fle_not_NaN: "fle a b \<Longrightarrow> a \<noteq> NaN \<and> b \<noteq> NaN"
  by (cases a; cases b) simp_all

lemma fle_refl: "a \<noteq> NaN \<Longrightarrow> fle a a"
  by (cases a) simp_all

lemma fle_trans: "fle a b \<Longrightarrow> fle b c \<Longrightarrow> fle a c"
  by (cases a; cases b; cases c) simp_all

lemma fle_antisym: "fle a b \<Longrightarrow> fle b a \<Longrightarrow> a = b"
  by (cases a; cases b) simp_all

lemma flt_fle: "flt a b \<Longrightarrow> fle a b"
  by (cases a; cases b) simp_all

lemma flt_iff: "flt a b \<longleftrightarrow> fle a b \<and> a \<noteq> b"
  by (cases a; cases b) auto

lemma not_flt: "a \<noteq> NaN \<Longrightarrow> b \<noteq> NaN \<Longrightarrow> \<not> flt a b \<Longrightarrow> fle b a"
  by (cases a; cases b) simp_all

lemma fle_Finite: "fle (Finite x) b \<Longrightarrow> fle b (Finite y) \<Longrightarrow> \<exists>v. b = Finite v \<and> x \<le> v \<and> v \<le> y"
  by (cases b) simp_all

lemma to_float_not_NaN [simp]: "to_float x \<noteq> NaN"
  by (simp add: to_float_def)

lemma to_double_not_NaN [simp]: "to_double x \<noteq> NaN"
  by (simp add: to_double_def)

lemma to_float_mono: "x \<le> y \<Longrightarrow> fle (to_float x) (to_float y)"
  by (simp add: to_float_def round_to_mono)

lemma to_double_mono: "x \<le> y \<Longrightarrow> fle (to_double x) (to_double y)"
  by (simp add: to_double_def round_to_mono)

lemma narrow_NaN_iff [simp]: "narrow to_float a = NaN \<longleftrightarrow> a = NaN"
  by (cases a) simp_all

lemma fle_round_PInf: "fle (round_to p w x) PInf"
  by (simp add: round_to_def)

lemma fle_MInf_round: "fle MInf (round_to p w x)"
  by (simp add: round_to_def)

lemma narrow_mono: "fle a b \<Longrightarrow> fle (narrow to_float a) (narrow to_float b)"
  by (cases a; cases b) (simp_all add: to_float_mono, simp_all add: to_float_def fle_round_PInf fle_MInf_round)

lemma to_float_idem: "to_float x = Finite v \<Longrightarrow> to_float v = Finite v"
  unfolding to_float_def by (rule round_to_idem) simp_all

lemma to_double_idem: "to_double x = Finite v \<Longrightarrow> to_double v = Finite v"
  unfolding to_double_def by (rule round_to_idem) simp_all

lemma narrow_idem [simp]: "narrow to_float (narrow to_float a) = narrow to_float a"
proof (cases a)
  case (Finite x)
  then show ?thesis by (cases "to_float x") (simp_all add: to_float_idem)
qed simp_all

text \<open>The values of \<^verbatim>\<open>float\<close> and of \<^verbatim>\<open>double\<close>.\<close>

lemma dyadic_int: "\<bar>k\<bar> < 2 ^ p \<Longrightarrow> emin w - (int p - 1) \<le> 0 \<Longrightarrow> dyadic p w (of_int k)"
  unfolding dyadic_def by (rule exI [of _ k], rule exI [of _ 0]) simp

lemma dyadic_float_double: "dyadic 24 8 v \<Longrightarrow> dyadic 53 11 v"
proof -
  assume "dyadic 24 8 v"
  then obtain m e where v: "v = of_int m * 2 powi e" and m: "\<bar>m\<bar> < 2 ^ 24" and e: "- 149 \<le> e"
    by (auto simp add: dyadic_def)
  have "\<bar>m\<bar> < 2 ^ 53" using m by simp
  with v e show ?thesis unfolding dyadic_def
    by (intro exI [of _ m] exI [of _ e]) simp
qed

lemma to_float_Finite:
  assumes "to_float x = Finite v"
  shows "dyadic 24 8 v" and "\<bar>v\<bar> < 2 powi 128"
  using round_to_Finite_dyadic [of 24 8 x v] assms by (simp_all add: to_float_def)

lemma to_double_Finite:
  assumes "to_double x = Finite v"
  shows "dyadic 53 11 v" and "\<bar>v\<bar> < 2 powi 1024"
  using round_to_Finite_dyadic [of 53 11 x v] assms by (simp_all add: to_double_def)

lemma to_float_dyadic: "dyadic 24 8 v \<Longrightarrow> \<bar>v\<bar> < 2 powi 128 \<Longrightarrow> to_float v = Finite v"
  unfolding to_float_def by (rule round_to_dyadic) simp_all

lemma to_double_dyadic: "dyadic 53 11 v \<Longrightarrow> \<bar>v\<bar> < 2 powi 1024 \<Longrightarrow> to_double v = Finite v"
  unfolding to_double_def by (rule round_to_dyadic) simp_all

lemma to_double_float:
  assumes "dyadic 24 8 v" "\<bar>v\<bar> < 2 powi 128"
  shows "to_double v = Finite v"
proof -
  have "(2::real) powi 128 \<le> 2 powi 1024" by (intro power_int_increasing) simp_all
  with assms(2) have "\<bar>v\<bar> < 2 powi 1024" by simp
  with assms(1) show ?thesis by (intro to_double_dyadic dyadic_float_double)
qed

lemma double_of_int_exact: "\<bar>k\<bar> < 2 ^ 53 \<Longrightarrow> double_of_int k = Finite (of_int k)"
proof -
  assume k: "\<bar>k\<bar> < 2 ^ 53"
  have "\<bar>real_of_int k\<bar> < 2 ^ 53" using k by (metis of_int_abs of_int_less_numeral_power_cancel_iff)
  also have "\<dots> \<le> 2 powi 1024" by simp
  finally have "\<bar>real_of_int k\<bar> < 2 powi 1024" .
  with k show ?thesis unfolding double_of_int_def
    by (intro to_double_dyadic dyadic_int) simp_all
qed

lemma float_of_int_exact: "\<bar>k\<bar> < 2 ^ 24 \<Longrightarrow> float_of_int k = Finite (of_int k)"
proof -
  assume k: "\<bar>k\<bar> < 2 ^ 24"
  have "\<bar>real_of_int k\<bar> < 2 ^ 24" using k by (metis of_int_abs of_int_less_numeral_power_cancel_iff)
  also have "\<dots> \<le> 2 powi 128" by simp
  finally have "\<bar>real_of_int k\<bar> < 2 powi 128" .
  with k show ?thesis unfolding float_of_int_def
    by (intro to_float_dyadic dyadic_int) simp_all
qed

lemma to_double_exact:
  assumes "\<bar>m\<bar> < 2 ^ 53" "- 1074 \<le> e" "e \<le> 900"
  shows "to_double (of_int m * 2 powi e) = Finite (of_int m * 2 powi e)"
proof -
  have d: "dyadic 53 11 (of_int m * 2 powi e)"
    unfolding dyadic_def using assms by (intro exI [of _ m] exI [of _ e]) simp
  have "\<bar>real_of_int m\<bar> < 2 ^ 53"
    using assms(1) by (metis of_int_abs of_int_less_numeral_power_cancel_iff)
  then have "\<bar>real_of_int m\<bar> * 2 powi e \<le> 2 ^ 53 * 2 powi e"
    by (intro mult_right_mono) simp_all
  also have "\<dots> = 2 powi (53 + e)" using power_int_add [of "2::real" 53 e] by simp
  also have "\<dots> \<le> 2 powi 1023" using assms(3) by (intro power_int_increasing) simp_all
  also have "\<dots> < 2 powi 1024" by (intro power_int_strict_increasing) simp_all
  finally have "\<bar>real_of_int m * 2 powi e\<bar> < 2 powi 1024" by (simp add: abs_mult)
  with d show ?thesis by (rule to_double_dyadic)
qed

lemma to_float_exact:
  assumes "\<bar>m\<bar> < 2 ^ 24" "- 149 \<le> e" "e \<le> 100"
  shows "to_float (of_int m * 2 powi e) = Finite (of_int m * 2 powi e)"
proof -
  have d: "dyadic 24 8 (of_int m * 2 powi e)"
    unfolding dyadic_def using assms by (intro exI [of _ m] exI [of _ e]) simp
  have "\<bar>real_of_int m\<bar> < 2 ^ 24"
    using assms(1) by (metis of_int_abs of_int_less_numeral_power_cancel_iff)
  then have "\<bar>real_of_int m\<bar> * 2 powi e \<le> 2 ^ 24 * 2 powi e"
    by (intro mult_right_mono) simp_all
  also have "\<dots> = 2 powi (24 + e)" using power_int_add [of "2::real" 24 e] by simp
  also have "\<dots> \<le> 2 powi 127" using assms(3) by (intro power_int_increasing) simp_all
  also have "\<dots> < 2 powi 128" by (intro power_int_strict_increasing) simp_all
  finally have "\<bar>real_of_int m * 2 powi e\<bar> < 2 powi 128" by (simp add: abs_mult)
  with d show ?thesis by (rule to_float_dyadic)
qed

lemma to_double_0 [simp]: "to_double 0 = Finite 0"
  using to_double_exact [of 0 0] by simp

lemma to_float_0 [simp]: "to_float 0 = Finite 0"
  using to_float_exact [of 0 0] by simp

lemma to_double_int: "\<bar>k\<bar> < 2 ^ 53 \<Longrightarrow> to_double (of_int k) = Finite (of_int k)"
  using to_double_exact [of k 0] by simp

lemma to_float_int: "\<bar>k\<bar> < 2 ^ 24 \<Longrightarrow> to_float (of_int k) = Finite (of_int k)"
  using to_float_exact [of k 0] by simp

lemma to_float_1 [simp]: "to_float 1 = Finite 1"
  using to_float_int [of 1] by simp

lemma to_double_1 [simp]: "to_double 1 = Finite 1"
  using to_double_int [of 1] by simp

lemma to_float_255 [simp]: "to_float 255 = Finite 255"
  using to_float_int [of 255] by simp

lemma to_float_half [simp]: "to_float (1 / 2) = Finite (1 / 2)"
  using to_float_exact [of 1 "- 1"] by simp

lemma to_double_half [simp]: "to_double (1 / 2) = Finite (1 / 2)"
  using to_double_exact [of 1 "- 1"] by simp

subsection \<open>Loops\<close>

lemma iterate_append:
  "iterate body (xs @ ys) s = (case iterate body xs s of Inl e \<Rightarrow> Inl e | Inr t \<Rightarrow> iterate body ys t)"
  by (induction xs arbitrary: s) (auto split: sum.splits)

lemma for_loop_0: "for_loop 0 body s = Inr s"
  by (simp add: for_loop_def)

lemma for_loop_Suc:
  "for_loop (Suc k) body s = (case for_loop k body s of Inl e \<Rightarrow> Inl e | Inr t \<Rightarrow> body k t)"
  by (simp add: for_loop_def iterate_append split: sum.splits)

lemma for_loop_rule:
  assumes "P 0 s"
    and "\<And>i t. i < k \<Longrightarrow> P i t \<Longrightarrow> \<exists>t'. body i t = Inr t' \<and> P (Suc i) t'"
  shows "\<exists>t. for_loop k body s = Inr t \<and> P k t"
proof -
  have "m \<le> k \<Longrightarrow> \<exists>t. for_loop m body s = Inr t \<and> P m t" for m
  proof (induction m)
    case 0
    show ?case using assms(1) by (simp add: for_loop_0)
  next
    case (Suc m)
    then obtain t where t: "for_loop m body s = Inr t" "P m t" by auto
    from Suc.prems assms(2) [OF _ t(2)] obtain t' where "body m t = Inr t'" "P (Suc m) t'"
      by auto
    with t show ?case by (simp add: for_loop_Suc)
  qed
  then show ?thesis by simp
qed

lemma for_loop_first:
  assumes "0 < k" and "body 0 s = Inl e"
  shows "for_loop k body s = Inl e"
  using assms by (simp add: for_loop_def upt_conv_Cons)

subsection \<open>Choice of the plot\<close>

lemma strchr_None_iff: "strchr s c = None \<longleftrightarrow> c \<notin> set s"
  by (induction s) auto

lemma fxy_check_None_iff: "fxy_check expression = None \<longleftrightarrow> CHR ''y'' \<notin> set expression"
  by (simp add: fxy_check_def strchr_None_iff)

text \<open>
  Claim C5. Which plot is drawn depends on the text of the expression alone: the surface
  branch runs exactly when the text contains the character \<open>y\<close> (and the image is
  square), the curve branch otherwise. The compiled expression \<open>n\<close> is passed on to the
  branch and is not looked at for the choice.
\<close>

theorem mode_is_textual:
  "makeImageData te_compile y0 pngData valuesPerPixel rows expression =
     (case te_compile expression of
        None \<Rightarrow> Inl (Abort CompileFailed, entry rows)
      | Some n \<Rightarrow>
          if CHR ''y'' \<in> set expression
          then (if imgHeight pngData \<noteq> imgWidth pngData
                then Inl (Abort InvalidDimensions, entry rows)
                else plot_surface n pngData valuesPerPixel (entry rows))
          else plot_curve n y0 pngData valuesPerPixel (entry rows))"
  by (simp add: makeImageData_def fxy_check_None_iff split: option.split)

subsection \<open>Errors before sampling\<close>

text \<open>
  Claim C7, as amended. When the expression contains \<open>y\<close> and the width differs from the
  height, the program aborts before any sampling: no \<^verbatim>\<open>te_eval\<close> call has been made and the
  buffer is as it was passed in. The abort is the dimension error when the expression
  compiles, and the compile error when it does not.
\<close>

theorem dimension_check_before_sampling:
  assumes "CHR ''y'' \<in> set expression" and "imgWidth pngData \<noteq> imgHeight pngData"
  shows "\<exists>s. makeImageData te_compile y0 pngData valuesPerPixel rows expression
           = Inl (Abort (if te_compile expression = None then CompileFailed
                         else InvalidDimensions), s)
         \<and> evals s = [] \<and> rowPointers s = rows"
  using assms
  by (auto simp add: makeImageData_def fxy_check_None_iff entry_def split: option.split)

theorem dimension_check_before_sampling_witness:
  "\<exists>s. makeImageData examples (Finite 0) (rgb 200 300) 3 (blank 200 300) ''x+y''
         = Inl (Abort InvalidDimensions, s)
     \<and> evals s = [] \<and> rowPointers s = blank 200 300"
  using dimension_check_before_sampling [of "''x+y''" "rgb 200 300" examples "Finite 0" 3 "blank 200 300"]
  by (simp add: rgb_def examples_def)

text \<open>
  Claim C7 as stated fails: \<open>y+\<close> contains \<open>y\<close> and the image is 200 by 300, but the
  abort is the compile error, which is checked first.
\<close>

theorem dimension_error_counterexample:
  "CHR ''y'' \<in> set ''y+'' \<and> imgWidth (rgb 200 300) \<noteq> imgHeight (rgb 200 300)
   \<and> makeImageData examples (Finite 0) (rgb 200 300) 3 (blank 200 300) ''y+''
       = Inl (Abort CompileFailed, entry (blank 200 300))
   \<and> makeImageData examples (Finite 0) (rgb 200 300) 3 (blank 200 300) ''y+''
       \<noteq> Inl (Abort InvalidDimensions, entry (blank 200 300))"
  by (simp add: makeImageData_def examples_def rgb_def)

subsection \<open>The argument count\<close>

text \<open>
  Claim C8. With an argument count other than two (an argument vector of length other
  than three) the process writes the notice to stdout and the usage error to stderr and
  aborts, which is not exit status 0; nothing else happens, so the output file is neither
  opened nor written.
\<close>

theorem wrong_argument_count:
  assumes "length argv \<noteq> 3"
  shows "main e argv = (Aborted, [Stdout ProgramAborted, Stderr IncorrectArguments])
     \<and> fst (main e argv) \<noteq> Exit 0
     \<and> Stderr IncorrectArguments \<in> set (snd (main e argv))
     \<and> \<not> list_ex on_file (snd (main e argv))"
  using assms by (simp add: main_def)

theorem wrong_argument_count_witness:
  "length [''plotPNG'', ''out.png''] \<noteq> 3
   \<and> main cooperative [''plotPNG'', ''out.png'']
       = (Aborted, [Stdout ProgramAborted, Stderr IncorrectArguments])"
  using wrong_argument_count [of "[''plotPNG'', ''out.png'']" cooperative] by simp

subsection \<open>Writing pixels\<close>

lemma allocated_iff:
  "allocated vpp w h img \<longleftrightarrow> h \<le> length img \<and> (\<forall>r<h. vpp * w \<le> length (img ! r))"
  by (auto simp add: allocated_def list_all_length)

lemma allocated_lengths:
  assumes "map length a = map length b"
  shows "allocated vpp w h a = allocated vpp w h b"
proof -
  have l: "length a = length b" using assms by (metis length_map)
  have "length (a ! r) = length (b ! r)" if "r < length a" for r
    using that assms l by (metis nth_map)
  then show ?thesis using l by (auto simp add: allocated_iff)
qed

lemma put_pixel_Some:
  assumes "allocated 3 w h img" "r < h" "c < w"
  shows "\<exists>img'. put_pixel img (int r) (int c * 3) col = Some img'"
proof -
  have "r < length img" "3 * w \<le> length (img ! r)"
    using assms by (auto simp add: allocated_iff)
  then show ?thesis using assms(3) by (simp add: put_pixel_def)
qed

lemma put_pixel_lengths:
  assumes "put_pixel img r off col = Some img'"
  shows "map length img' = map length img"
  using assms
  by (auto simp add: put_pixel_def map_update list_update_same_conv split: if_splits)

lemma put_pixel_same:
  assumes "put_pixel img (int r) (int c * 3) col = Some img'"
  shows "pixel_at 3 img' r c = col"
  using assms
  by (auto simp add: put_pixel_def pixel_at_def nat_mult_distrib split: if_splits)

lemma put_pixel_other:
  assumes "put_pixel img (int r) (int c * 3) col = Some img'" and "r' \<noteq> r \<or> c' \<noteq> c"
  shows "pixel_at 3 img' r' c' = pixel_at 3 img r' c'"
proof (cases "r' = r")
  case False
  then show ?thesis using assms(1)
    by (auto simp add: put_pixel_def pixel_at_def split: if_splits)
next
  case True
  with assms(2) have c: "c' \<noteq> c" by simp
  then have ne: "c' * 3 \<noteq> c * 3" "c' * 3 \<noteq> c * 3 + 1" "c' * 3 \<noteq> c * 3 + 2"
    "c' * 3 + 1 \<noteq> c * 3" "c' * 3 + 1 \<noteq> c * 3 + 1" "c' * 3 + 1 \<noteq> c * 3 + 2"
    "c' * 3 + 2 \<noteq> c * 3" "c' * 3 + 2 \<noteq> c * 3 + 1" "c' * 3 + 2 \<noteq> c * 3 + 2"
    by presburger+
  show ?thesis using assms(1) True ne
    by (auto simp add: put_pixel_def pixel_at_def nat_mult_distrib split: if_splits)
qed

lemma allocated_blank: "allocated 3 w h (blank w h)"
  by (simp add: allocated_def blank_def list_all_length)

subsection \<open>The background of the curve plot\<close>

lemma whiten_pixel_step:
  assumes a: "allocated 3 W H rows"
    and w: "whitened rows W i j s" and ij: "i < H" "j < W"
  shows "\<exists>t. whiten_pixel 3 i j s = Inr t \<and> whitened rows W i (Suc j) t"
proof -
  have len: "map length (rowPointers s) = map length rows"
    and x: "x_incr s = Finite 0" "evals s = []"
    using w by (simp_all add: whitened_def)
  have old: "pixel_at 3 (rowPointers s) a b = (255, 255, 255)"
    if "a < i \<and> b < W \<or> a = i \<and> b < j" for a b
    using w that unfolding whitened_def by blast
  have a': "allocated 3 W H (rowPointers s)"
    using a allocated_lengths [OF len] by simp
  from put_pixel_Some [OF a' ij]
  obtain img where img: "put_pixel (rowPointers s) (int i) (int j * 3) (255, 255, 255) = Some img"
    by blast
  define t where "t = s\<lparr>rowPointers := img\<rparr>"
  have run: "whiten_pixel 3 i j s = Inr t"
    using img by (simp add: whiten_pixel_def t_def)
  have px: "pixel_at 3 img a b = (255, 255, 255)"
    if c: "a < i \<and> b < W \<or> a = i \<and> b < Suc j" for a b
  proof (cases "a = i \<and> b = j")
    case True
    then show ?thesis using put_pixel_same [OF img] by simp
  next
    case False
    with c have before: "a < i \<and> b < W \<or> a = i \<and> b < j" by auto
    from False have "a \<noteq> i \<or> b \<noteq> j" by simp
    from put_pixel_other [OF img this] old [OF before] show ?thesis by simp
  qed
  have "whitened rows W i (Suc j) t"
    using px put_pixel_lengths [OF img] by (simp add: whitened_def t_def x len)
  with run show ?thesis by blast
qed

lemma whiten_row_step:
  assumes N: "imgWidth pngData = int W"
    and a: "allocated 3 W H rows"
    and w: "whitened rows W i 0 s" and i: "i < H"
  shows "\<exists>t. whiten_row pngData 3 i s = Inr t \<and> whitened rows W (Suc i) 0 t"
proof -
  have "\<exists>t. for_loop W (whiten_pixel 3 i) s = Inr t \<and> whitened rows W i W t"
    using w
  proof (rule for_loop_rule)
    fix j t
    assume "j < W" and "whitened rows W i j t"
    then show "\<exists>t'. whiten_pixel 3 i j t = Inr t' \<and> whitened rows W i (Suc j) t'"
      using whiten_pixel_step [OF a _ i] by blast
  qed
  then obtain t where t: "for_loop W (whiten_pixel 3 i) s = Inr t"
    and wt: "whitened rows W i W t" by blast
  have "whitened rows W (Suc i) 0 t"
    using wt by (auto simp add: whitened_def less_Suc_eq)
  moreover have "i < length (rowPointers s)"
  proof -
    have "length (rowPointers s) = length rows"
      using w by (metis whitened_def length_map)
    then show ?thesis using a i by (simp add: allocated_iff)
  qed
  ultimately show ?thesis using t by (auto simp add: whiten_row_def N)
qed

lemma background_white:
  assumes N: "imgWidth pngData = int W" "imgHeight pngData = int H"
    and a: "allocated 3 W H rows"
  shows "\<exists>t. for_loop (nat (imgHeight pngData)) (whiten_row pngData 3) (entry rows) = Inr t
           \<and> whitened rows W H 0 t"
proof -
  have "whitened rows W 0 0 (entry rows)" by (simp add: whitened_def entry_def)
  then have "\<exists>t. for_loop H (whiten_row pngData 3) (entry rows) = Inr t \<and> whitened rows W H 0 t"
  proof (rule for_loop_rule)
    fix i t
    assume "i < H" and "whitened rows W i 0 t"
    then show "\<exists>t'. whiten_row pngData 3 i t = Inr t' \<and> whitened rows W (Suc i) 0 t'"
      using whiten_row_step [OF N(1) a] by blast
  qed
  then show ?thesis by (simp add: N)
qed

subsection \<open>Accumulating an increment\<close>

lemma increment_value:
  assumes "0 < n" "n < 2 ^ 53"
  shows "increment n = Finite (rnd 53 11 (1 / real_of_int n))"
    and "0 \<le> rnd 53 11 (1 / real_of_int n)"
proof -
  have d: "double_of_int n = Finite (of_int n)"
    using assms by (intro double_of_int_exact) simp
  have "\<bar>1 / real_of_int n\<bar> \<le> 2 powi 0" using assms(1) by simp
  then have "round_to 53 11 (1 / real_of_int n) = Finite (rnd 53 11 (1 / real_of_int n))
      \<and> \<bar>rnd 53 11 (1 / real_of_int n)\<bar> \<le> 2 powi 0"
    by (intro round_to_finite) simp_all
  then show "increment n = Finite (rnd 53 11 (1 / real_of_int n))"
    using assms(1) by (simp add: increment_def d to_double_def)
  show "0 \<le> rnd 53 11 (1 / real_of_int n)"
    using assms(1) by (intro rnd_nonneg) simp
qed

lemma fadd_mono:
  assumes "fle a b"
  shows "fle (fadd to_double a (Finite s)) (fadd to_double b (Finite s))"
  using assms
  by (cases a; cases b)
    (simp_all add: to_double_mono, simp_all add: to_double_def fle_round_PInf fle_MInf_round)

lemma advance_mono: "fle a b \<Longrightarrow> fle (advance (Finite s) a) (advance (Finite s) b)"
  unfolding advance_def by (intro narrow_mono fadd_mono)

lemma advance_float [simp]: "narrow to_float (advance st a) = advance st a"
  by (simp add: advance_def)

lemma advance_increases:
  assumes a: "narrow to_float a = a" "a \<noteq> NaN" and s: "0 \<le> s"
  shows "fle a (advance (Finite s) a)"
proof -
  have "fle a (fadd to_double a (Finite s))"
  proof (cases a)
    case (Finite v)
    with a(1) have "to_float v = Finite v" by simp
    then have "to_double v = Finite v"
      using to_float_Finite [of v v] by (intro to_double_float)
    moreover have "fle (to_double v) (to_double (v + s))"
      using s by (intro to_double_mono) simp
    ultimately show ?thesis using Finite by simp
  qed (use a(2) in simp_all)
  then have "fle (narrow to_float a) (advance (Finite s) a)"
    unfolding advance_def by (rule narrow_mono)
  with a(1) show ?thesis by simp
qed

lemma position_float [simp]: "narrow to_float (position n k) = position n k"
  by (cases k) (simp_all add: to_float_dyadic)

lemma position_increases:
  assumes "0 < n" "n < 2 ^ 53"
  shows "fle (Finite 0) (position n k) \<and> fle (position n k) (position n (Suc k))"
proof (induction k)
  case 0
  have "fle (Finite 0) (advance (Finite (rnd 53 11 (1 / real_of_int n))) (Finite 0))"
    using increment_value(2) [OF assms] by (intro advance_increases) (simp_all add: to_float_dyadic)
  then show ?case by (simp add: increment_value(1) [OF assms])
next
  case (Suc k)
  then have le: "fle (Finite 0) (position n (Suc k))" by (blast intro: fle_trans)
  then have "position n (Suc k) \<noteq> NaN" by (blast dest: fle_not_NaN)
  then have "fle (position n (Suc k))
      (advance (Finite (rnd 53 11 (1 / real_of_int n))) (position n (Suc k)))"
    using increment_value(2) [OF assms] by (intro advance_increases position_float)
  with le show ?case by (simp add: increment_value(1) [OF assms])
qed

lemma position_mono:
  assumes "0 < n" "n < 2 ^ 53" "j \<le> k"
  shows "fle (position n j) (position n k)"
  using assms(3)
proof (induction k)
  case 0
  then show ?case by (simp add: fle_refl)
next
  case (Suc k)
  show ?case
  proof (cases "j = Suc k")
    case True
    have "position n (Suc k) \<noteq> NaN"
      using position_increases [OF assms(1,2), of "Suc k"] by (blast dest: fle_not_NaN)
    with True show ?thesis by (simp add: fle_refl)
  next
    case False
    with Suc have "fle (position n j) (position n k)" by simp
    then show ?thesis
      using position_increases [OF assms(1,2), of k] by (blast intro: fle_trans)
  qed
qed

text \<open>
  One addition to a value below \<open>2 ^ j\<close> is off by at most \<open>eps j\<close>: half a unit in the
  last place of the \<^verbatim>\<open>float\<close>, and of the \<^verbatim>\<open>double\<close> sum and increment.
\<close>

lemma advance_error:
  assumes n: "0 < n" "n < 2 ^ 53" and sj: "1 / real_of_int n < 2 powi j"
    and j: "- 100 \<le> j" "j \<le> 100"
    and v: "0 \<le> v" "v + 1 / real_of_int n + 2 powi (j - 54) \<le> 2 powi j - 2 powi (j - 11)"
  shows "\<exists>u. advance (increment n) (Finite v) = Finite u \<and> 0 \<le> u
           \<and> \<bar>u - (v + 1 / real_of_int n)\<bar> \<le> eps j"
proof -
  define s where "s = rnd 53 11 (1 / real_of_int n)"
  have inc: "increment n = Finite s" and s0: "0 \<le> s"
    using increment_value [OF n] by (simp_all add: s_def)
  have "\<bar>1 / real_of_int n\<bar> < 2 powi j" using sj n(1) by simp
  then have se: "\<bar>s - 1 / real_of_int n\<bar> \<le> 2 powi (j - 54)"
    unfolding s_def using j rnd_error_below [of "1 / real_of_int n" j 11 53] by simp
  define M :: real where "M = 2 powi j - 2 powi (j - 11)"
  have Mj: "M < 2 powi j" by (simp add: M_def)
  have "M = of_int 2047 * 2 powi (j - 11)"
  proof -
    have "(2::real) powi j = 2 powi 11 * 2 powi (j - 11)"
      using power_int_add [of "2::real" 11 "j - 11"] by simp
    then show ?thesis by (simp add: M_def algebra_simps)
  qed
  then have Md: "dyadic 53 11 M"
    unfolding dyadic_def using j by (intro exI [of _ 2047] exI [of _ "j - 11"]) simp
  define y where "y = v + s"
  have y0: "0 \<le> y" using v(1) s0 by (simp add: y_def)
  have yM: "y \<le> M" using v(2) se by (simp add: y_def M_def)
  define d where "d = rnd 53 11 y"
  have d0: "0 \<le> d" using y0 by (simp add: d_def rnd_nonneg)
  have dM: "d \<le> M" unfolding d_def using Md yM by (intro rnd_le_dyadic) simp_all
  have "\<bar>y\<bar> \<le> 2 powi j" using y0 yM Mj by simp
  then have "round_to 53 11 y = Finite (rnd 53 11 y) \<and> \<bar>rnd 53 11 y\<bar> \<le> 2 powi j"
    using j by (intro round_to_finite) simp_all
  then have dd: "to_double y = Finite d" by (simp add: to_double_def d_def)
  have "\<bar>y\<bar> < 2 powi j" using y0 yM Mj by simp
  then have de: "\<bar>d - y\<bar> \<le> 2 powi (j - 54)"
    unfolding d_def using j rnd_error_below [of y j 11 53] by simp
  define u where "u = rnd 24 8 d"
  have u0: "0 \<le> u" using d0 by (simp add: u_def rnd_nonneg)
  have "\<bar>d\<bar> \<le> 2 powi j" using d0 dM Mj by simp
  then have "round_to 24 8 d = Finite (rnd 24 8 d) \<and> \<bar>rnd 24 8 d\<bar> \<le> 2 powi j"
    using j by (intro round_to_finite) simp_all
  then have uu: "to_float d = Finite u" by (simp add: to_float_def u_def)
  have "\<bar>d\<bar> < 2 powi j" using d0 dM Mj by simp
  then have ue: "\<bar>u - d\<bar> \<le> 2 powi (j - 25)"
    unfolding u_def using j rnd_error_below [of d j 8 24] by simp
  have run: "advance (increment n) (Finite v) = Finite u"
    by (simp add: advance_def inc dd uu flip: y_def)
  have "(2::real) powi (j - 53) = 2 powi 1 * 2 powi (j - 54)"
    using power_int_add [of "2::real" 1 "j - 54"] by simp
  then have two: "2 * 2 powi (j - 54) = (2::real) powi (j - 53)" by simp
  have "\<bar>u - (v + 1 / real_of_int n)\<bar> \<le> \<bar>u - d\<bar> + \<bar>d - y\<bar> + \<bar>s - 1 / real_of_int n\<bar>"
    by (simp add: y_def)
  also have "\<dots> \<le> 2 powi (j - 25) + 2 powi (j - 54) + 2 powi (j - 54)"
    using ue de se by simp
  also have "\<dots> = eps j" using two by (simp add: eps_def)
  finally show ?thesis using run u0 by blast
qed

lemma position_error:
  assumes n: "0 < n" "n < 2 ^ 53" and sj: "1 / real_of_int n < 2 powi j"
    and j: "- 100 \<le> j" "j \<le> 100"
    and K: "real K / real_of_int n + real K * eps j \<le> 2 powi j - 2 powi (j - 11)"
    and k: "k \<le> K"
  shows "\<exists>v. position n k = Finite v \<and> 0 \<le> v
           \<and> \<bar>v - real k / real_of_int n\<bar> \<le> real k * eps j"
  using k
proof (induction k)
  case 0
  then show ?case by simp
next
  case (Suc k)
  then obtain v where v: "position n k = Finite v" "0 \<le> v"
    and e: "\<bar>v - real k / real_of_int n\<bar> \<le> real k * eps j" by auto
  have e0: "0 \<le> eps j" by (simp add: eps_def)
  have small: "2 powi (j - 54) \<le> eps j"
  proof -
    have "(2::real) powi (j - 54) \<le> 2 powi (j - 53)" by (intro power_int_increasing) simp_all
    also have "\<dots> \<le> eps j" by (simp add: eps_def)
    finally show ?thesis .
  qed
  have "real (Suc k) / real_of_int n + real (Suc k) * eps j
      \<le> real K / real_of_int n + real K * eps j"
    using Suc.prems n(1) e0 by (intro add_mono divide_right_mono mult_right_mono) simp_all
  moreover have "v + 1 / real_of_int n + 2 powi (j - 54)
      \<le> real (Suc k) / real_of_int n + real (Suc k) * eps j"
    using e small by (simp add: algebra_simps add_divide_distrib)
  ultimately have "v + 1 / real_of_int n + 2 powi (j - 54) \<le> 2 powi j - 2 powi (j - 11)"
    using K by simp
  from advance_error [OF n sj j v(2) this]
  obtain u where u: "advance (increment n) (Finite v) = Finite u" "0 \<le> u"
    and ue: "\<bar>u - (v + 1 / real_of_int n)\<bar> \<le> eps j" by blast
  have "\<bar>u - real (Suc k) / real_of_int n\<bar> \<le> real (Suc k) * eps j"
    using e ue by (simp add: algebra_simps add_divide_distrib)
  with u v(1) show ?case by simp
qed

subsection \<open>The first pass of the surface plot\<close>

lemma cells_Suc:
  "cells N i (Suc j) = cells N i j @ [(position (int N) i, position (int N) j)]"
  by (simp add: cells_def)

lemma cells_row: "cells N (Suc i) 0 = cells N i N"
  by (simp add: cells_def)

lemma length_cells: "length (cells N i j) = i * N + j"
  by (induction i) (simp_all add: cells_def length_concat)

lemma visited_Suc: "visited N i (Suc j) a b \<longleftrightarrow> visited N i j a b \<or> a = i \<and> b = j"
  by (auto simp add: visited_def)

lemma visited_row: "visited N (Suc i) 0 a b \<longleftrightarrow> visited N i N a b"
  by (auto simp add: visited_def)

lemma visited_first: "0 < N \<Longrightarrow> visited N i j 0 0 \<longleftrightarrow> \<not> (i = 0 \<and> j = 0)"
  by (auto simp add: visited_def)

lemma stored_float [simp]: "narrow to_float (stored n N a b) = stored n N a b"
  by (simp add: stored_def)

lemma track_extremes:
  fixes f :: "nat \<Rightarrow> nat \<Rightarrow> fp"
  assumes fl: "\<And>a b. narrow to_float (f a b) = f a b"
    and first: "V 0 0" "f 0 0 \<noteq> NaN"
    and mn: "\<exists>a b. V a b \<and> mn = f a b" and mx: "\<exists>a b. V a b \<and> mx = f a b"
    and bound: "\<And>a b. V a b \<Longrightarrow> f a b \<noteq> NaN \<Longrightarrow> fle mn (f a b) \<and> fle (f a b) mx"
    and new: "f i j = narrow to_float r"
    and mx': "mx' = (if flt mx r then narrow to_float r else mx)"
    and mn': "mn' = (if flt mx r then mn else if flt r mn then narrow to_float r else mn)"
  shows "(\<exists>a b. (V a b \<or> a = i \<and> b = j) \<and> mn' = f a b)
       \<and> (\<exists>a b. (V a b \<or> a = i \<and> b = j) \<and> mx' = f a b)
       \<and> (\<forall>a b. (V a b \<or> a = i \<and> b = j) \<and> f a b \<noteq> NaN \<longrightarrow>
              fle mn' (f a b) \<and> fle (f a b) mx')"
proof -
  have m0: "fle mn (f 0 0)" "fle (f 0 0) mx" using bound [OF first] by simp_all
  then have nn: "mn \<noteq> NaN" "mx \<noteq> NaN" by (auto dest: fle_not_NaN)
  have le: "fle mn mx" using m0 by (rule fle_trans)
  have fmn: "narrow to_float mn = mn" using mn fl by auto
  have fmx: "narrow to_float mx = mx" using mx fl by auto
  show ?thesis
  proof (cases "flt mx r")
    case True
    then have "fle (narrow to_float mx) (narrow to_float r)" by (intro narrow_mono flt_fle)
    then have up: "fle mx (f i j)" by (simp add: fmx new)
    have ij: "fle (f i j) (f i j)" using up by (intro fle_refl) (auto dest: fle_not_NaN)
    have eq: "mx' = f i j" "mn' = mn" using True by (simp_all add: mx' mn' new)
    have "fle mn (f a b) \<and> fle (f a b) (f i j)"
      if "(V a b \<or> a = i \<and> b = j) \<and> f a b \<noteq> NaN" for a b
      using that bound [of a b] up le ij by (auto intro: fle_trans)
    then show ?thesis unfolding eq using mn by blast
  next
    case F1: False
    show ?thesis
    proof (cases "flt r mn")
      case True
      then have "fle (narrow to_float r) (narrow to_float mn)" by (intro narrow_mono flt_fle)
      then have low: "fle (f i j) mn" by (simp add: fmn new)
      have ij: "fle (f i j) (f i j)" using low by (intro fle_refl) (auto dest: fle_not_NaN)
      have eq: "mx' = mx" "mn' = f i j" using True F1 by (simp_all add: mx' mn' new)
      have "fle (f i j) (f a b) \<and> fle (f a b) mx"
        if "(V a b \<or> a = i \<and> b = j) \<and> f a b \<noteq> NaN" for a b
        using that bound [of a b] low le ij by (auto intro: fle_trans)
      then show ?thesis unfolding eq using mx by blast
    next
      case F2: False
      have eq: "mx' = mx" "mn' = mn" using F1 F2 by (simp_all add: mx' mn')
      have inside: "fle mn (f i j) \<and> fle (f i j) mx" if "f i j \<noteq> NaN"
      proof -
        from that have r: "r \<noteq> NaN" by (auto simp add: new)
        have "fle r mx" using nn(2) r F1 by (intro not_flt)
        moreover have "fle mn r" using nn(1) r F2 by (intro not_flt)
        ultimately have "fle (narrow to_float r) (narrow to_float mx)"
          and "fle (narrow to_float mn) (narrow to_float r)" by (simp_all add: narrow_mono)
        then show ?thesis by (simp add: fmn fmx new)
      qed
      have "fle mn (f a b) \<and> fle (f a b) mx"
        if "(V a b \<or> a = i \<and> b = j) \<and> f a b \<noteq> NaN" for a b
        using that bound [of a b] inside by auto
      then show ?thesis unfolding eq using mn mx by blast
    qed
  qed
qed

lemma surface_sample_Inr:
  "\<exists>t. surface_sample n pngData i j s = Inr t
     \<and> x_incr t = x_incr s
     \<and> y_incr t = advance (increment (imgWidth pngData)) (y_incr s)
     \<and> evals t = evals s @ [(x_incr s, y_incr s)]
     \<and> z_values t = (z_values s)((i, j) \<mapsto> narrow to_float (n (x_incr s) (y_incr s)))
     \<and> rowPointers t = rowPointers s
     \<and> max_v t = (if i = 0 \<and> j = 0 then narrow to_float (n (x_incr s) (y_incr s))
                  else if flt (max_v s) (n (x_incr s) (y_incr s))
                  then narrow to_float (n (x_incr s) (y_incr s))
                  else max_v s)
     \<and> min_v t = (if i = 0 \<and> j = 0 then narrow to_float (n (x_incr s) (y_incr s))
                  else if flt (max_v s) (n (x_incr s) (y_incr s)) then min_v s
                  else if flt (n (x_incr s) (y_incr s)) (min_v s)
                  then narrow to_float (n (x_incr s) (y_incr s))
                  else min_v s)"
  by (simp add: surface_sample_def Let_def)

lemma surface_sample_step:
  assumes N: "0 < N" "imgWidth pngData = int N" "imgHeight pngData = int N"
    and s: "sampled n N rows i j s" "y_incr s = position (int N) j"
  shows "\<exists>t. surface_sample n pngData i j s = Inr t \<and> sampled n N rows i (Suc j) t
            \<and> y_incr t = position (int N) (Suc j)"
proof -
  define r where "r = n (position (int N) i) (position (int N) j)"
  have xs: "x_incr s = position (int N) i" and es: "evals s = cells N i j"
    and zs: "z_values s = (\<lambda>(a, b). if visited N i j a b then Some (stored n N a b) else None)"
    and rs: "rowPointers s = rows"
    using s(1) by (simp_all add: sampled_def)
  obtain t where t: "surface_sample n pngData i j s = Inr t"
    and xt: "x_incr t = x_incr s"
    and yt: "y_incr t = advance (increment (imgWidth pngData)) (y_incr s)"
    and et: "evals t = evals s @ [(x_incr s, y_incr s)]"
    and zt: "z_values t = (z_values s)((i, j) \<mapsto> narrow to_float (n (x_incr s) (y_incr s)))"
    and rt: "rowPointers t = rowPointers s"
    and maxt: "max_v t = (if i = 0 \<and> j = 0 then narrow to_float (n (x_incr s) (y_incr s))
                  else if flt (max_v s) (n (x_incr s) (y_incr s))
                  then narrow to_float (n (x_incr s) (y_incr s))
                  else max_v s)"
    and mint: "min_v t = (if i = 0 \<and> j = 0 then narrow to_float (n (x_incr s) (y_incr s))
                  else if flt (max_v s) (n (x_incr s) (y_incr s)) then min_v s
                  else if flt (n (x_incr s) (y_incr s)) (min_v s)
                  then narrow to_float (n (x_incr s) (y_incr s))
                  else min_v s)"
    using surface_sample_Inr [of n pngData i j s] by blast
  have rr: "n (x_incr s) (y_incr s) = r" by (simp add: r_def xs s(2))
  have st: "stored n N i j = narrow to_float r" by (simp add: stored_def r_def)
  have y: "y_incr t = position (int N) (Suc j)"
    by (simp add: yt s(2) N(2))
  have e: "evals t = cells N i (Suc j)"
    by (simp add: et es xs s(2) cells_Suc)
  have z: "z_values t = (\<lambda>(a, b). if visited N i (Suc j) a b then Some (stored n N a b) else None)"
    by (auto simp add: zt zs rr st visited_Suc fun_eq_iff)
  have mm: "extremes n N i (Suc j) (min_v t) (max_v t)"
  proof (cases "i = 0 \<and> j = 0")
    case True
    then have "min_v t = stored n N 0 0" "max_v t = stored n N 0 0"
      using st by (simp_all add: maxt mint rr)
    moreover have "visited N 0 (Suc 0) a b \<longleftrightarrow> a = 0 \<and> b = 0" for a b
      by (auto simp add: visited_def)
    ultimately show ?thesis using True by (auto simp add: extremes_def intro: fle_refl)
  next
    case False
    then have old: "extremes n N i j (min_v s) (max_v s)"
      using s(1) N(1) by (simp add: sampled_def visited_first)
    have maxt': "max_v t = (if flt (max_v s) r then narrow to_float r else max_v s)"
      and mint': "min_v t = (if flt (max_v s) r then min_v s
                             else if flt r (min_v s) then narrow to_float r else min_v s)"
      using False by (auto simp add: maxt mint rr)
    show ?thesis
    proof (cases "stored n N 0 0 = NaN")
      case True
      with old have "min_v s = NaN" "max_v s = NaN" by (simp_all add: extremes_def)
      then have "min_v t = NaN" "max_v t = NaN" by (simp_all add: maxt' mint')
      with True show ?thesis by (simp add: extremes_def)
    next
      case nn: False
      have first: "visited N i j 0 0" using False N(1) by (simp add: visited_first)
      from old nn have mn: "\<exists>a b. visited N i j a b \<and> min_v s = stored n N a b"
        and mx: "\<exists>a b. visited N i j a b \<and> max_v s = stored n N a b"
        and bound: "\<And>a b. visited N i j a b \<Longrightarrow> stored n N a b \<noteq> NaN \<Longrightarrow>
              fle (min_v s) (stored n N a b) \<and> fle (stored n N a b) (max_v s)"
        by (simp_all add: extremes_def)
      from track_extremes [where f = "stored n N" and V = "visited N i j",
          OF stored_float first nn mn mx bound st maxt' mint']
      show ?thesis using nn by (simp add: extremes_def visited_Suc)
    qed
  qed
  have "sampled n N rows i (Suc j) t"
    unfolding sampled_def using mm by (simp add: xt xs e z rt rs)
  with t y show ?thesis by blast
qed

lemma surface_row_step:
  assumes N: "0 < N" "imgWidth pngData = int N" "imgHeight pngData = int N"
    and s: "sampled n N rows i 0 s"
  shows "\<exists>t. surface_row n pngData i s = Inr t \<and> sampled n N rows (Suc i) 0 t"
proof -
  let ?P = "\<lambda>j t. sampled n N rows i j t \<and> y_incr t = position (int N) j"
  have start: "?P 0 (s\<lparr>y_incr := Finite 0\<rparr>)"
    using s by (simp add: sampled_def)
  have "\<exists>t. for_loop N (surface_sample n pngData i) (s\<lparr>y_incr := Finite 0\<rparr>) = Inr t \<and> ?P N t"
    using start
  proof (rule for_loop_rule)
    fix j t
    assume "j < N" and "?P j t"
    then show "\<exists>t'. surface_sample n pngData i j t = Inr t' \<and> ?P (Suc j) t'"
      using surface_sample_step [OF N, of n rows i j t] by blast
  qed
  then obtain t where t: "for_loop N (surface_sample n pngData i) (s\<lparr>y_incr := Finite 0\<rparr>) = Inr t"
    and P: "sampled n N rows i N t" by blast
  have "sampled n N rows (Suc i) 0
          (t\<lparr>x_incr := advance (increment (int N)) (x_incr t)\<rparr>)"
    using P unfolding sampled_def
    by (simp add: cells_row visited_row extremes_def)
  with t show ?thesis
    by (simp add: surface_row_def N)
qed

lemma first_pass_sampled:
  assumes N: "0 < N" "imgWidth pngData = int N" "imgHeight pngData = int N"
  shows "\<exists>t. first_pass n pngData (entry rows) = Inr t \<and> sampled n N rows N 0 t"
proof -
  have "sampled n N rows 0 0 (entry rows)"
    by (simp add: sampled_def entry_def cells_def visited_def fun_eq_iff)
  then have "\<exists>t. for_loop N (surface_row n pngData) (entry rows) = Inr t \<and> sampled n N rows N 0 t"
  proof (rule for_loop_rule)
    fix i t
    assume "i < N" and "sampled n N rows i 0 t"
    then show "\<exists>t'. surface_row n pngData i t = Inr t' \<and> sampled n N rows (Suc i) 0 t'"
      using surface_row_step [OF N] by blast
  qed
  then show ?thesis by (simp add: first_pass_def N)
qed

lemma visited_all: "visited N N 0 a b \<longleftrightarrow> a < N \<and> b < N"
  by (simp add: visited_def)

lemma first_pass_extremes:
  assumes "0 < N" and "imgWidth pngData = int N" and "imgHeight pngData = int N"
  shows "\<exists>s. first_pass n pngData (entry rows) = Inr s
    \<and> evals s = concat (map (\<lambda>i. map (\<lambda>j. (position (int N) i, position (int N) j)) [0..<N])
                  [0..<N])
    \<and> (\<forall>i<N. \<forall>j<N. z_values s (i, j) = Some (stored n N i j))
    \<and> (stored n N 0 0 = NaN \<longrightarrow> min_v s = NaN \<and> max_v s = NaN)
    \<and> (stored n N 0 0 \<noteq> NaN \<longrightarrow>
          (\<exists>i<N. \<exists>j<N. min_v s = stored n N i j) \<and> (\<exists>i<N. \<exists>j<N. max_v s = stored n N i j)
        \<and> (\<forall>i<N. \<forall>j<N. stored n N i j \<noteq> NaN \<longrightarrow>
              fle (min_v s) (stored n N i j) \<and> fle (stored n N i j) (max_v s)))
    \<and> (\<forall>c. (\<forall>i<N. \<forall>j<N. stored n N i j = c) \<longrightarrow> min_v s = c \<and> max_v s = c)
    \<and> (\<exists>s1. surface_sample n pngData 0 0 (entry rows) = Inr s1
            \<and> min_v s1 = stored n N 0 0 \<and> max_v s1 = stored n N 0 0)
    \<and> rowPointers s = rows"
proof -
  obtain s where s: "first_pass n pngData (entry rows) = Inr s" and P: "sampled n N rows N 0 s"
    using first_pass_sampled [OF assms] by blast
  have e: "evals s = cells N N 0" and rows: "rowPointers s = rows"
    using P by (simp_all add: sampled_def)
  have z: "\<forall>i<N. \<forall>j<N. z_values s (i, j) = Some (stored n N i j)"
    using P by (simp add: sampled_def visited_all)
  have ex: "extremes n N N 0 (min_v s) (max_v s)"
    using P assms(1) by (simp add: sampled_def visited_all)
  have nan: "stored n N 0 0 = NaN \<longrightarrow> min_v s = NaN \<and> max_v s = NaN"
    using ex by (simp add: extremes_def)
  have mm: "stored n N 0 0 \<noteq> NaN \<longrightarrow>
          (\<exists>i<N. \<exists>j<N. min_v s = stored n N i j) \<and> (\<exists>i<N. \<exists>j<N. max_v s = stored n N i j)
        \<and> (\<forall>i<N. \<forall>j<N. stored n N i j \<noteq> NaN \<longrightarrow>
              fle (min_v s) (stored n N i j) \<and> fle (stored n N i j) (max_v s))"
  proof
    assume nn: "stored n N 0 0 \<noteq> NaN"
    with ex have a: "\<exists>a b. (a < N \<and> b < N) \<and> min_v s = stored n N a b"
      and b: "\<exists>a b. (a < N \<and> b < N) \<and> max_v s = stored n N a b"
      and c: "\<forall>a b. (a < N \<and> b < N) \<and> stored n N a b \<noteq> NaN \<longrightarrow>
                fle (min_v s) (stored n N a b) \<and> fle (stored n N a b) (max_v s)"
      by (simp_all add: extremes_def visited_all)
    from a b c show "(\<exists>i<N. \<exists>j<N. min_v s = stored n N i j)
        \<and> (\<exists>i<N. \<exists>j<N. max_v s = stored n N i j)
        \<and> (\<forall>i<N. \<forall>j<N. stored n N i j \<noteq> NaN \<longrightarrow>
              fle (min_v s) (stored n N i j) \<and> fle (stored n N i j) (max_v s))"
      by blast
  qed
  have const: "\<forall>c. (\<forall>i<N. \<forall>j<N. stored n N i j = c) \<longrightarrow> min_v s = c \<and> max_v s = c"
  proof (intro allI impI)
    fix c
    assume c: "\<forall>i<N. \<forall>j<N. stored n N i j = c"
    then have c0: "stored n N 0 0 = c" using assms(1) by simp
    show "min_v s = c \<and> max_v s = c"
    proof (cases "c = NaN")
      case True
      with nan c0 show ?thesis by simp
    next
      case False
      with mm c0 have "\<exists>i<N. \<exists>j<N. min_v s = stored n N i j"
        and "\<exists>i<N. \<exists>j<N. max_v s = stored n N i j" by simp_all
      then obtain i j i' j' where "i < N" "j < N" "min_v s = stored n N i j"
        and "i' < N" "j' < N" "max_v s = stored n N i' j'" by blast
      with c show ?thesis by simp
    qed
  qed
  have first: "\<exists>s1. surface_sample n pngData 0 0 (entry rows) = Inr s1
            \<and> min_v s1 = stored n N 0 0 \<and> max_v s1 = stored n N 0 0"
    by (simp add: surface_sample_def Let_def entry_def stored_def)
  show ?thesis
    using s e z nan mm const first rows by (simp add: cells_def)
qed

lemma first_pass_least:
  assumes N: "0 < N" "imgWidth pngData = int N" "imgHeight pngData = int N"
    and s: "first_pass n pngData (entry rows) = Inr s"
    and ab: "a < N" "b < N" "stored n N a b \<noteq> NaN" and first: "stored n N 0 0 \<noteq> NaN"
    and le: "\<forall>i<N. \<forall>j<N. stored n N i j \<noteq> NaN \<longrightarrow> fle (stored n N a b) (stored n N i j)"
  shows "min_v s = stored n N a b"
proof -
  from first_pass_extremes [OF N, of n rows] s first
  obtain i j where ij: "i < N" "j < N" "min_v s = stored n N i j"
    and b: "\<forall>i<N. \<forall>j<N. stored n N i j \<noteq> NaN \<longrightarrow> fle (min_v s) (stored n N i j)"
    by auto
  from b N(1) first have "min_v s \<noteq> NaN" by (blast dest: fle_not_NaN)
  with le ij have "fle (stored n N a b) (min_v s)" by simp
  moreover from b ab have "fle (min_v s) (stored n N a b)" by simp
  ultimately show ?thesis by (intro fle_antisym)
qed

lemma first_pass_greatest:
  assumes N: "0 < N" "imgWidth pngData = int N" "imgHeight pngData = int N"
    and s: "first_pass n pngData (entry rows) = Inr s"
    and ab: "a < N" "b < N" "stored n N a b \<noteq> NaN" and first: "stored n N 0 0 \<noteq> NaN"
    and le: "\<forall>i<N. \<forall>j<N. stored n N i j \<noteq> NaN \<longrightarrow> fle (stored n N i j) (stored n N a b)"
  shows "max_v s = stored n N a b"
proof -
  from first_pass_extremes [OF N, of n rows] s first
  obtain i j where ij: "i < N" "j < N" "max_v s = stored n N i j"
    and b: "\<forall>i<N. \<forall>j<N. stored n N i j \<noteq> NaN \<longrightarrow> fle (stored n N i j) (max_v s)"
    by auto
  from b N(1) first have "max_v s \<noteq> NaN" by (blast dest: fle_not_NaN)
  with le ij have "fle (max_v s) (stored n N a b)" by simp
  moreover from b ab have "fle (stored n N a b) (max_v s)" by simp
  ultimately show ?thesis by (intro fle_antisym)
qed

text \<open>
  On a grid of at most 32767 by 32767 every position is a number, off the quotient
  \<open>k / N\<close> by at most \<open>k\<close> times \<open>2\<^sup>-\<^sup>2\<^sup>4 + 2\<^sup>-\<^sup>5\<^sup>2\<close>.
\<close>

lemma eps_1: "eps 1 = 1 / 2 ^ 24 + 1 / 2 ^ 52"
  by (simp add: eps_def power_int_minus divide_simps)

lemma position_grid:
  assumes "0 < N" "N \<le> 32767" "k \<le> N"
  shows "\<exists>v. position (int N) k = Finite v \<and> 0 \<le> v
           \<and> \<bar>v - real k / real N\<bar> \<le> real k * eps 1"
proof -
  have "real N * eps 1 \<le> 32767 * eps 1"
    using assms(2) by (intro mult_right_mono) (simp_all add: eps_1)
  also have "\<dots> \<le> 1 / 2 ^ 9" by (simp add: eps_1)
  finally have "real N / real_of_int (int N) + real N * eps 1 \<le> 2 powi 1 - 2 powi (1 - 11)"
    using assms(1) by (simp add: power_int_minus)
  moreover have "1 / real_of_int (int N) < 2 powi 1"
  proof -
    have "1 / real N \<le> 1" using assms(1) by simp
    then show ?thesis by simp
  qed
  ultimately show ?thesis
    using position_error [of "int N" 1 N k] assms by simp
qed

lemma position_2: "position 2 (Suc 0) = Finite (1 / 2)"
  by (simp add: increment_def advance_def double_of_int_exact)

lemma third_double: "to_double (1 / 3) = Finite (6004799503160661 / 18014398509481984)"
  using to_double_at [of "- 2" "1 / 3"] by (simp add: nearest_even_def)

lemma third_float: "to_float (6004799503160661 / 18014398509481984) = Finite (11184811 / 33554432)"
  using to_float_at [of "- 2" "6004799503160661 / 18014398509481984"] by (simp add: nearest_even_def)

lemma position_3: "position 3 (Suc 0) = Finite (11184811 / 33554432)"
  by (simp add: increment_def advance_def double_of_int_exact third_double
      to_double_idem [OF third_double] third_float)

text \<open>
  Claim C4 holds of the program in this form. On a square image of side \<open>N\<close> the first
  pass calls the evaluator once for every cell, row by row, at the positions the two
  \<^verbatim>\<open>float\<close> counters have reached by repeated addition of \<^verbatim>\<open>1.0 / N\<close>, and stores
  every result, converted to \<^verbatim>\<open>float\<close>. \<open>min\<close> and \<open>max\<close> are set from the first
  sample. When that one is a NaN, both stay a NaN. Otherwise \<open>min\<close> is the least and
  \<open>max\<close> the greatest of the stored values that are not a NaN. When all stored values
  are one value, \<open>min\<close> and \<open>max\<close> are that value.
\<close>

theorem first_pass_min_max:
  assumes "0 < N" and "imgWidth pngData = int N" and "imgHeight pngData = int N"
  shows "\<exists>s. first_pass n pngData (entry rows) = Inr s
    \<and> evals s = concat (map (\<lambda>i. map (\<lambda>j. (position (int N) i, position (int N) j)) [0..<N])
                  [0..<N])
    \<and> (\<forall>i<N. \<forall>j<N. z_values s (i, j) = Some (stored n N i j))
    \<and> (stored n N 0 0 = NaN \<longrightarrow> min_v s = NaN \<and> max_v s = NaN)
    \<and> (stored n N 0 0 \<noteq> NaN \<longrightarrow>
          (\<exists>i<N. \<exists>j<N. min_v s = stored n N i j) \<and> (\<exists>i<N. \<exists>j<N. max_v s = stored n N i j)
        \<and> (\<forall>i<N. \<forall>j<N. stored n N i j \<noteq> NaN \<longrightarrow>
              fle (min_v s) (stored n N i j) \<and> fle (stored n N i j) (max_v s)))
    \<and> (\<forall>c. (\<forall>i<N. \<forall>j<N. stored n N i j = c) \<longrightarrow> min_v s = c \<and> max_v s = c)
    \<and> (\<exists>s1. surface_sample n pngData 0 0 (entry rows) = Inr s1
            \<and> min_v s1 = stored n N 0 0 \<and> max_v s1 = stored n N 0 0)
    \<and> rowPointers s = rows"
  using assms by (rule first_pass_extremes)

lemma plus_2:
  "stored (\<lambda>x y. fadd to_double x y) 2 0 0 = Finite 0"
  "stored (\<lambda>x y. fadd to_double x y) 2 0 (Suc 0) = Finite (1 / 2)"
  "stored (\<lambda>x y. fadd to_double x y) 2 (Suc 0) 0 = Finite (1 / 2)"
  "stored (\<lambda>x y. fadd to_double x y) 2 (Suc 0) (Suc 0) = Finite 1"
  by (simp_all add: stored_def position_2 del: position.simps(2))

lemma five_2:
  "i < 2 \<Longrightarrow> j < 2 \<Longrightarrow>
     stored (\<lambda>x y. fadd to_double (Finite 5) (fmul to_double (Finite 0) y)) 2 i j = Finite 5"
  using to_double_int [of 5] to_float_int [of 5]
  by (auto simp add: stored_def position_2 less_2_cases_iff simp del: position.simps(2))

theorem first_pass_min_max_witness:
  "(\<exists>s. first_pass (\<lambda>x y. fadd to_double x y) (rgb 2 2) (entry (blank 2 2)) = Inr s
      \<and> z_values s (1, 1) = Some (Finite 1) \<and> min_v s = Finite 0 \<and> max_v s = Finite 1)
   \<and> (\<exists>s. first_pass (\<lambda>x y. fadd to_double (Finite 5) (fmul to_double (Finite 0) y))
            (rgb 2 2) (entry (blank 2 2)) = Inr s
      \<and> min_v s = Finite 5 \<and> max_v s = Finite 5)"
proof
  let ?n = "\<lambda>x y. fadd to_double x y"
  obtain s where s: "first_pass ?n (rgb 2 2) (entry (blank 2 2)) = Inr s"
    and z: "\<forall>i<2. \<forall>j<2. z_values s (i, j) = Some (stored ?n 2 i j)"
    using first_pass_min_max [of 2 "rgb 2 2" ?n "blank 2 2"] by (auto simp add: rgb_def)
  have cases: "i = 0 \<or> i = Suc 0" if "i < 2" for i :: nat using that by auto
  have mn: "min_v s = stored ?n 2 0 0"
    using s by (rule first_pass_least [rotated 3]) (auto simp add: rgb_def plus_2 dest!: cases)
  have mx: "max_v s = stored ?n 2 (Suc 0) (Suc 0)"
    using s by (rule first_pass_greatest [rotated 3]) (auto simp add: rgb_def plus_2 dest!: cases)
  from z have "z_values s (1, 1) = Some (Finite 1)" by (simp add: plus_2)
  with s mn mx
  show "\<exists>s. first_pass ?n (rgb 2 2) (entry (blank 2 2)) = Inr s
      \<and> z_values s (1, 1) = Some (Finite 1) \<and> min_v s = Finite 0 \<and> max_v s = Finite 1"
    by (simp add: plus_2)
next
  let ?n = "\<lambda>x y. fadd to_double (Finite 5) (fmul to_double (Finite 0) y)"
  show "\<exists>s. first_pass ?n (rgb 2 2) (entry (blank 2 2)) = Inr s
      \<and> min_v s = Finite 5 \<and> max_v s = Finite 5"
    using first_pass_min_max [of 2 "rgb 2 2" ?n "blank 2 2"] five_2
    by (auto simp add: rgb_def)
qed

text \<open>
  Claim C4 as stated fails. On a grid of 3 by 3 the second call of the evaluator for
  \<open>x+y\<close> is at \<open>y = 11184811 / 33554432\<close>, the \<^verbatim>\<open>float\<close> nearest to the
  \<^verbatim>\<open>double\<close> nearest to a third, not at \<open>y = 1/3\<close>. On a grid of 2 by 2 the first
  sample of \<open>y/x\<close> is \<open>0/0\<close>, a NaN, and \<open>min\<close> and \<open>max\<close> are a NaN at the end,
  although the sample at the cell \<open>(1, 1)\<close> is 1.
\<close>

theorem first_pass_counterexample:
  "evals (final (first_pass (the (examples ''x+y'')) (rgb 3 3) (entry (blank 3 3)))) ! 1
     = (Finite 0, Finite (11184811 / 33554432))
   \<and> min_v (final (first_pass (the (examples ''y/x'')) (rgb 2 2) (entry (blank 2 2)))) = NaN
   \<and> max_v (final (first_pass (the (examples ''y/x'')) (rgb 2 2) (entry (blank 2 2)))) = NaN
   \<and> z_values (final (first_pass (the (examples ''y/x'')) (rgb 2 2) (entry (blank 2 2)))) (1, 1)
       = Some (Finite 1)"
proof -
  let ?p = "the (examples ''x+y'')"
  obtain s where s: "first_pass ?p (rgb 3 3) (entry (blank 3 3)) = Inr s"
    and e: "evals s = concat (map (\<lambda>i. map (\<lambda>j. (position 3 i, position 3 j)) [0..<3]) [0..<3])"
    using first_pass_extremes [of 3 "rgb 3 3" ?p "blank 3 3"] by (auto simp add: rgb_def)
  have "evals s ! 1 = (Finite 0, Finite (11184811 / 33554432))"
    by (simp add: e numeral_3_eq_3 position_3 del: position.simps(2))
  then have a: "evals (final (first_pass ?p (rgb 3 3) (entry (blank 3 3)))) ! 1
     = (Finite 0, Finite (11184811 / 33554432))"
    by (simp only: s final_def sum.case)
  let ?q = "the (examples ''y/x'')"
  have q: "?q = (\<lambda>x y. fdiv to_double y x)" by (simp add: examples_def)
  have nan: "stored ?q 2 0 0 = NaN" by (simp add: q stored_def)
  have one: "stored ?q 2 (Suc 0) (Suc 0) = Finite 1"
    by (simp add: q stored_def position_2 del: position.simps(2))
  obtain t where t: "first_pass ?q (rgb 2 2) (entry (blank 2 2)) = Inr t"
    and z: "\<forall>i<2. \<forall>j<2. z_values t (i, j) = Some (stored ?q 2 i j)"
    and m: "stored ?q 2 0 0 = NaN \<longrightarrow> min_v t = NaN \<and> max_v t = NaN"
    using first_pass_extremes [of 2 "rgb 2 2" ?q "blank 2 2"] by (auto simp add: rgb_def)
  from z have "z_values t (1, 1) = Some (stored ?q 2 (Suc 0) (Suc 0))" by simp
  with a m nan one show ?thesis by (simp add: t final_def)
qed

subsection \<open>A surface with a single value\<close>

lemma normalise_same: "normalise a a a = NaN"
  by (cases a) (simp_all add: normalise_def fsub_def)

lemma red_of_NaN [simp]: "red_of NaN = NaN"
  by (simp add: red_of_def)

lemma blue_of_NaN [simp]: "blue_of NaN = NaN"
  by (simp add: blue_of_def)

lemma to_byte_NaN [simp]: "to_byte NaN = None"
  by (simp add: to_byte_def)

text \<open>
  Claim C6 does not hold of the program. When every sample of the surface is the same value,
  \<open>max = min\<close> and the first cell of the second pass divides zero by zero; the value
  converted to the red byte is a NaN, a conversion C leaves undefined. No pixel has
  been written at that point.
\<close>

theorem constant_surface_fault:
  assumes "0 < N" and "imgWidth pngData = int N" and "imgHeight pngData = int N"
    and "te_compile expression = Some n" and "CHR ''y'' \<in> set expression"
    and "\<forall>i<N. \<forall>j<N. n (position (int N) i) (position (int N) j) = c"
  shows "\<exists>s. makeImageData te_compile y0 pngData valuesPerPixel rows expression
            = Inl (Undefined NotRepresentable, s)
          \<and> min_v s = narrow to_float c \<and> max_v s = narrow to_float c \<and> rowPointers s = rows"
proof -
  have st: "\<forall>i<N. \<forall>j<N. stored n N i j = narrow to_float c"
    using assms(6) by (simp add: stored_def)
  obtain s1 where s1: "first_pass n pngData (entry rows) = Inr s1"
    and zs: "\<forall>i<N. \<forall>j<N. z_values s1 (i, j) = Some (stored n N i j)"
    and const: "\<forall>c. (\<forall>i<N. \<forall>j<N. stored n N i j = c) \<longrightarrow> min_v s1 = c \<and> max_v s1 = c"
    and rows: "rowPointers s1 = rows"
    using first_pass_extremes [OF assms(1,2,3), of n rows] by blast
  from const st have mm: "min_v s1 = narrow to_float c" "max_v s1 = narrow to_float c"
    by blast+
  have z: "z_values s1 (0, 0) = Some (narrow to_float c)"
    using zs st assms(1) by simp
  have cell: "colour_cell pngData valuesPerPixel 0 0 s1 = Inl (Undefined NotRepresentable, s1)"
    by (simp add: colour_cell_def z mm normalise_same)
  have row: "colour_row pngData valuesPerPixel 0 s1 = Inl (Undefined NotRepresentable, s1)"
    unfolding colour_row_def using assms(1,3) cell by (intro for_loop_first) simp_all
  have "second_pass pngData valuesPerPixel s1 = Inl (Undefined NotRepresentable, s1)"
    unfolding second_pass_def using assms(1,2) row by (intro for_loop_first) simp_all
  then have "makeImageData te_compile y0 pngData valuesPerPixel rows expression
            = Inl (Undefined NotRepresentable, s1)"
    using assms(2,3,4,5) s1 by (simp add: makeImageData_def fxy_check_None_iff plot_surface_def)
  with mm rows show ?thesis by blast
qed

theorem constant_surface_fault_witness:
  "\<exists>s. makeImageData examples (Finite 0) (rgb 300 300) 3 (blank 300 300) ''5+0*y''
         = Inl (Undefined NotRepresentable, s)
       \<and> min_v s = Finite 5 \<and> max_v s = Finite 5 \<and> rowPointers s = blank 300 300"
proof -
  let ?n = "\<lambda>x y. fadd to_double (Finite 5) (fmul to_double (Finite 0) y)"
  have five: "?n (position (int 300) i) (position (int 300) j) = Finite 5"
    if j: "j < 300" for i j
  proof -
    obtain v where "position (int 300) j = Finite v"
      using position_grid [of 300 j] j by auto
    then show ?thesis using to_double_int [of 5] by simp
  qed
  have "narrow to_float (Finite 5) = Finite 5" using to_float_int [of 5] by simp
  then show ?thesis
    using constant_surface_fault [of 300 "rgb 300 300" examples "''5+0*y''" ?n "Finite 5"
        "Finite 0" 3 "blank 300 300"] five
    by (simp add: rgb_def examples_def)
qed

subsection \<open>The second pass of the surface plot\<close>

lemma for_loop_fault:
  assumes "k < n" and "for_loop k body s = Inr t" and "body k t = Inl e"
  shows "for_loop n body s = Inl e"
proof -
  have "[0..<n] = [0..<k] @ k # [Suc k..<n]"
    using assms(1) by (metis less_imp_le_nat upt_add_eq_append upt_conv_Cons zero_le
        le_add_diff_inverse add_0)
  then show ?thesis
    using assms(2,3) by (simp add: for_loop_def iterate_append)
qed

lemma shade_cases:
  "shade mn mx z = None \<longleftrightarrow>
     to_byte (red_of (normalise mn mx z)) = None \<or> to_byte (blue_of (normalise mn mx z)) = None"
  by (simp add: shade_def split: option.splits)

lemma colour_cell_step:
  assumes N: "imgWidth pngData = int N" "imgHeight pngData = int N"
    and a: "allocated 3 N N (rowPointers s1)"
    and c: "coloured s1 N i j s" and ij: "i < N" "j < N"
    and z: "z_values s1 (i, j) = Some z" and sh: "shade (min_v s1) (max_v s1) z = Some col"
  shows "\<exists>t. colour_cell pngData 3 i j s = Inr t \<and> coloured s1 N i (Suc j) t"
proof -
  obtain red blue where red: "to_byte (red_of (normalise (min_v s1) (max_v s1) z)) = Some red"
    and blue: "to_byte (blue_of (normalise (min_v s1) (max_v s1) z)) = Some blue"
    and col: "col = (red, 0, blue)"
    using sh by (auto simp add: shade_def split: option.splits)
  have same: "z_values s = z_values s1" "min_v s = min_v s1" "max_v s = max_v s1"
    "evals s = evals s1"
    and len: "map length (rowPointers s) = map length (rowPointers s1)"
    using c by (simp_all add: coloured_def)
  have old: "\<exists>z. z_values s1 (a, b) = Some z
             \<and> shade (min_v s1) (max_v s1) z = Some (pixel_at 3 (rowPointers s) (N - 1 - a) b)"
    if "visited N i j a b" for a b
    using c that unfolding coloured_def by blast
  have a': "allocated 3 N N (rowPointers s)"
    using a allocated_lengths [OF len] by simp
  have row: "imgWidth pngData - 1 - int i = int (N - 1 - i)"
    using ij(1) N(1) by simp
  have "N - 1 - i < N" using ij(1) by simp
  from put_pixel_Some [OF a' this ij(2)]
  obtain img where img: "put_pixel (rowPointers s) (int (N - 1 - i)) (int j * 3) col
      = Some img" by blast
  define t where "t = s\<lparr>rowPointers := img\<rparr>"
  have run: "colour_cell pngData 3 i j s = Inr t"
    using img red blue row col by (simp add: colour_cell_def same z t_def)
  have px: "\<exists>z. z_values s1 (a, b) = Some z
             \<and> shade (min_v s1) (max_v s1) z = Some (pixel_at 3 img (N - 1 - a) b)"
    if v: "visited N i (Suc j) a b" for a b
  proof (cases "a = i \<and> b = j")
    case True
    then show ?thesis using put_pixel_same [OF img] z sh by simp
  next
    case False
    with v have before: "visited N i j a b" by (simp add: visited_Suc)
    then have "a \<le> i" by (auto simp add: visited_def)
    then have "N - 1 - a \<noteq> N - 1 - i \<or> b \<noteq> j"
      using False ij(1) by auto
    from put_pixel_other [OF img this] old [OF before] show ?thesis by simp
  qed
  have "coloured s1 N i (Suc j) t"
    using px put_pixel_lengths [OF img]
    by (simp add: coloured_def t_def same len)
  with run show ?thesis by blast
qed

lemma colour_cell_fault:
  assumes c: "coloured s1 N i j s"
    and z: "z_values s1 (i, j) = Some z" and sh: "shade (min_v s1) (max_v s1) z = None"
  shows "colour_cell pngData 3 i j s = Inl (Undefined NotRepresentable, s)"
proof -
  have same: "z_values s = z_values s1" "min_v s = min_v s1" "max_v s = max_v s1"
    using c by (simp_all add: coloured_def)
  from sh show ?thesis
    by (auto simp add: shade_cases colour_cell_def Let_def same z split: option.splits)
qed

lemma colour_row_part:
  assumes N: "imgWidth pngData = int N" "imgHeight pngData = int N"
    and a: "allocated 3 N N (rowPointers s1)"
    and c: "coloured s1 N i 0 s" and i: "i < N" and k: "k \<le> N"
    and ok: "\<forall>j<k. \<exists>z col. z_values s1 (i, j) = Some z
                \<and> shade (min_v s1) (max_v s1) z = Some col"
  shows "\<exists>t. for_loop k (colour_cell pngData 3 i) s = Inr t \<and> coloured s1 N i k t"
  using c
proof (rule for_loop_rule)
  fix j t
  assume j: "j < k" and ct: "coloured s1 N i j t"
  from ok j obtain z col where "z_values s1 (i, j) = Some z"
    and "shade (min_v s1) (max_v s1) z = Some col" by blast
  moreover have "j < N" using j k by simp
  ultimately show "\<exists>t'. colour_cell pngData 3 i j t = Inr t' \<and> coloured s1 N i (Suc j) t'"
    using colour_cell_step [OF N a ct i] by blast
qed

lemma colour_row_step:
  assumes N: "imgWidth pngData = int N" "imgHeight pngData = int N"
    and a: "allocated 3 N N (rowPointers s1)"
    and c: "coloured s1 N i 0 s" and i: "i < N"
    and ok: "\<forall>j<N. \<exists>z col. z_values s1 (i, j) = Some z
                \<and> shade (min_v s1) (max_v s1) z = Some col"
  shows "\<exists>t. colour_row pngData 3 i s = Inr t \<and> coloured s1 N (Suc i) 0 t"
proof -
  obtain t where t: "for_loop N (colour_cell pngData 3 i) s = Inr t"
    and ct: "coloured s1 N i N t"
    using colour_row_part [OF N a c i _ ok] by blast
  have "coloured s1 N (Suc i) 0 t"
    using ct by (simp add: coloured_def visited_row)
  with t show ?thesis by (auto simp add: colour_row_def N)
qed

lemma second_pass_part:
  assumes N: "imgWidth pngData = int N" "imgHeight pngData = int N"
    and a: "allocated 3 N N (rowPointers s1)" and k: "k \<le> N"
    and ok: "\<forall>i<k. \<forall>j<N. \<exists>z col. z_values s1 (i, j) = Some z
                \<and> shade (min_v s1) (max_v s1) z = Some col"
  shows "\<exists>t. for_loop k (colour_row pngData 3) s1 = Inr t \<and> coloured s1 N k 0 t"
proof -
  have "coloured s1 N 0 0 s1" by (simp add: coloured_def visited_def)
  then show ?thesis
  proof (rule for_loop_rule)
    fix i t
    assume i: "i < k" and ct: "coloured s1 N i 0 t"
    have "i < N" using i k by simp
    moreover from ok i have "\<forall>j<N. \<exists>z col. z_values s1 (i, j) = Some z
                \<and> shade (min_v s1) (max_v s1) z = Some col" by blast
    ultimately show "\<exists>t'. colour_row pngData 3 i t = Inr t' \<and> coloured s1 N (Suc i) 0 t'"
      using colour_row_step [OF N a ct] by blast
  qed
qed

lemma second_pass_coloured:
  assumes N: "imgWidth pngData = int N" "imgHeight pngData = int N"
    and a: "allocated 3 N N (rowPointers s1)"
    and ok: "\<forall>i<N. \<forall>j<N. \<exists>z col. z_values s1 (i, j) = Some z
                \<and> shade (min_v s1) (max_v s1) z = Some col"
  shows "\<exists>t. second_pass pngData 3 s1 = Inr t \<and> coloured s1 N N 0 t"
  using second_pass_part [OF N a _ ok] by (simp add: second_pass_def N)

text \<open>
  The second pass stops at the first cell with a channel value that does not convert to
  a byte; the cells before it have their colours.
\<close>

lemma second_pass_fault:
  assumes N: "imgWidth pngData = int N" "imgHeight pngData = int N"
    and a: "allocated 3 N N (rowPointers s1)" and ij: "i < N" "j < N"
    and ok: "\<forall>a b. visited N i j a b \<longrightarrow>
                (\<exists>z col. z_values s1 (a, b) = Some z \<and> shade (min_v s1) (max_v s1) z = Some col)"
    and z: "z_values s1 (i, j) = Some z" and sh: "shade (min_v s1) (max_v s1) z = None"
  shows "\<exists>t. second_pass pngData 3 s1 = Inl (Undefined NotRepresentable, t)
           \<and> coloured s1 N i j t"
proof -
  have rows: "\<forall>a<i. \<forall>b<N. \<exists>z col. z_values s1 (a, b) = Some z
                \<and> shade (min_v s1) (max_v s1) z = Some col"
    using ok by (simp add: visited_def)
  obtain t1 where t1: "for_loop i (colour_row pngData 3) s1 = Inr t1"
    and c1: "coloured s1 N i 0 t1"
    using second_pass_part [OF N a _ rows] ij(1) by auto
  have row: "\<forall>b<j. \<exists>z col. z_values s1 (i, b) = Some z
                \<and> shade (min_v s1) (max_v s1) z = Some col"
    using ok by (simp add: visited_def)
  obtain t2 where t2: "for_loop j (colour_cell pngData 3 i) t1 = Inr t2"
    and c2: "coloured s1 N i j t2"
    using colour_row_part [OF N a c1 ij(1) _ row] ij(2) by auto
  have "colour_cell pngData 3 i j t2 = Inl (Undefined NotRepresentable, t2)"
    using c2 z sh by (rule colour_cell_fault)
  with ij(2) t2
  have "for_loop N (colour_cell pngData 3 i) t1 = Inl (Undefined NotRepresentable, t2)"
    by (rule for_loop_fault)
  then have "colour_row pngData 3 i t1 = Inl (Undefined NotRepresentable, t2)"
    by (simp add: colour_row_def N)
  with ij(1) t1
  have "for_loop N (colour_row pngData 3) s1 = Inl (Undefined NotRepresentable, t2)"
    by (rule for_loop_fault)
  with c2 show ?thesis by (simp add: second_pass_def N)
qed

subsection \<open>The range of the colours\<close>

lemma to_float_between:
  assumes "l \<le> x" "x \<le> h" "to_float l = Finite l'" "to_float h = Finite h'"
  shows "\<exists>v. to_float x = Finite v \<and> l' \<le> v \<and> v \<le> h'"
  using to_float_mono [OF assms(1)] to_float_mono [OF assms(2)] assms(3,4)
  by (simp add: fle_Finite)

lemma to_double_between:
  assumes "l \<le> x" "x \<le> h" "to_double l = Finite l'" "to_double h = Finite h'"
  shows "\<exists>v. to_double x = Finite v \<and> l' \<le> v \<and> v \<le> h'"
  using to_double_mono [OF assms(1)] to_double_mono [OF assms(2)] assms(3,4)
  by (simp add: fle_Finite)

lemma trunc_byte: "0 \<le> r \<Longrightarrow> r \<le> 255 \<Longrightarrow> 0 \<le> trunc r \<and> trunc r \<le> 255"
  by (simp add: trunc_def floor_le_iff)

lemma to_byte_Finite:
  assumes "0 \<le> r" "r \<le> 255"
  shows "to_byte (Finite r) = Some (word_of_int (trunc r))"
  using trunc_byte [OF assms] by (simp add: to_byte_def)

text \<open>Two different values of \<^verbatim>\<open>float\<close> have a difference that does not round to zero.\<close>

lemma float_gap:
  assumes "to_float a = Finite a" "to_float b = Finite b" "a < b"
    and "to_float (b - a) = Finite d"
  shows "0 < d"
proof -
  have "dyadic 24 8 a" "dyadic 24 8 b"
    using assms(1,2) by (auto dest: to_float_Finite(1))
  from dyadic_gap [OF this assms(3)] have "2 powi (- 149) \<le> b - a" by simp
  then have "fle (to_float (2 powi (- 149))) (to_float (b - a))" by (rule to_float_mono)
  moreover have "to_float (2 powi (- 149)) = Finite (2 powi (- 149))"
    using to_float_exact [of 1 "- 149"] by simp
  ultimately have "2 powi (- 149) \<le> d" by (simp add: assms(4))
  moreover have "(0::real) < 2 powi (- 149)" by simp
  ultimately show ?thesis by linarith
qed

lemma normalise_range:
  assumes fl: "narrow to_float mn = mn" "narrow to_float mx = mx"
    and z: "fle mn z" "fle z mx" and lt: "flt mn mx"
    and fin: "fsub to_float mx mn \<noteq> PInf"
  shows "\<exists>p r b. normalise mn mx z = Finite p \<and> 0 \<le> p \<and> p \<le> 1
           \<and> red_of (Finite p) = Finite r \<and> 0 \<le> r \<and> r \<le> 255
           \<and> blue_of (Finite p) = Finite b \<and> 0 \<le> b \<and> b \<le> 255
           \<and> shade mn mx z = Some (word_of_int (trunc r), 0, word_of_int (trunc b))"
proof -
  obtain lo hi where mn: "mn = Finite lo" and mx: "mx = Finite hi"
    using lt fin by (cases mn; cases mx) (simp_all add: fsub_def)
  have lh: "lo < hi" using lt by (simp add: mn mx)
  obtain c where c: "z = Finite c" "lo \<le> c" "c \<le> hi"
    using z fle_Finite [of lo z hi] by (auto simp add: mn mx)
  have flo: "to_float lo = Finite lo" and fhi: "to_float hi = Finite hi"
    using fl by (simp_all add: mn mx)
  have "fle (to_float 0) (to_float (hi - lo))" using lh by (intro to_float_mono) simp
  with fin obtain d where d: "to_float (hi - lo) = Finite d"
    by (cases "to_float (hi - lo)") (simp_all add: fsub_def mn mx)
  have d0: "0 < d" using flo fhi lh d by (rule float_gap)
  obtain u where u: "to_float (c - lo) = Finite u" "0 \<le> u" "u \<le> d"
    using to_float_between [of 0 "c - lo" "hi - lo" 0 d] c d by auto
  have "0 \<le> u / d" "u / d \<le> 1" using u d0 by simp_all
  then obtain p where p: "to_float (u / d) = Finite p" "0 \<le> p" "p \<le> 1"
    using to_float_between [of 0 "u / d" 1 0 1] by auto
  have np: "normalise mn mx z = Finite p"
    using d0 by (simp add: normalise_def fsub_def mn mx c u d p)
  obtain q where q: "to_float (1 - p) = Finite q" "0 \<le> q" "q \<le> 1"
    using to_float_between [of 0 "1 - p" 1 0 1] p by auto
  obtain r where r: "to_float (255 * q) = Finite r" "0 \<le> r" "r \<le> 255"
    using to_float_between [of 0 "255 * q" 255 0 255] q by auto
  obtain b where b: "to_float (255 * p) = Finite b" "0 \<le> b" "b \<le> 255"
    using to_float_between [of 0 "255 * p" 255 0 255] p by auto
  have red: "red_of (Finite p) = Finite r" by (simp add: red_of_def fsub_def q r)
  have blue: "blue_of (Finite p) = Finite b" by (simp add: blue_of_def b)
  have "shade mn mx z = Some (word_of_int (trunc r), 0, word_of_int (trunc b))"
    by (simp add: shade_def np red blue to_byte_Finite r b)
  with np p red r blue b show ?thesis by blast
qed

lemma first_pass_ranged:
  assumes N: "0 < N" "imgWidth pngData = int N" "imgHeight pngData = int N"
    and s1: "first_pass n pngData (entry rows) = Inr s1"
    and nonan: "\<forall>i<N. \<forall>j<N. z_values s1 (i, j) \<noteq> Some NaN"
  shows "\<forall>i<N. \<forall>j<N. \<exists>z. z_values s1 (i, j) = Some z \<and> narrow to_float z = z
           \<and> fle (min_v s1) z \<and> fle z (max_v s1)"
    and "narrow to_float (min_v s1) = min_v s1" and "narrow to_float (max_v s1) = max_v s1"
    and "rowPointers s1 = rows"
proof -
  from first_pass_extremes [OF N, of n rows] s1
  have zs: "\<forall>i<N. \<forall>j<N. z_values s1 (i, j) = Some (stored n N i j)"
    and mm: "stored n N 0 0 \<noteq> NaN \<longrightarrow>
          (\<exists>i<N. \<exists>j<N. min_v s1 = stored n N i j) \<and> (\<exists>i<N. \<exists>j<N. max_v s1 = stored n N i j)
        \<and> (\<forall>i<N. \<forall>j<N. stored n N i j \<noteq> NaN \<longrightarrow>
              fle (min_v s1) (stored n N i j) \<and> fle (stored n N i j) (max_v s1))"
    and rows: "rowPointers s1 = rows"
    by auto
  have nn: "stored n N i j \<noteq> NaN" if "i < N" "j < N" for i j
    using zs nonan that by auto
  from mm nn [OF N(1) N(1)]
  obtain a b a' b' where "min_v s1 = stored n N a b" "max_v s1 = stored n N a' b'"
    and bound: "\<forall>i<N. \<forall>j<N. stored n N i j \<noteq> NaN \<longrightarrow>
              fle (min_v s1) (stored n N i j) \<and> fle (stored n N i j) (max_v s1)"
    by blast
  then show "narrow to_float (min_v s1) = min_v s1" "narrow to_float (max_v s1) = max_v s1"
    by simp_all
  show "\<forall>i<N. \<forall>j<N. \<exists>z. z_values s1 (i, j) = Some z \<and> narrow to_float z = z
           \<and> fle (min_v s1) z \<and> fle z (max_v s1)"
    using zs nn bound by simp
  show "rowPointers s1 = rows" by (rule rows)
qed

lemma surface_pixels:
  assumes N: "0 < N" "imgWidth pngData = int N" "imgHeight pngData = int N"
    and a: "allocated 3 N N rows"
    and s1: "first_pass n pngData (entry rows) = Inr s1"
    and nonan: "\<forall>i<N. \<forall>j<N. z_values s1 (i, j) \<noteq> Some NaN"
    and lt: "flt (min_v s1) (max_v s1)"
    and fin: "fsub to_float (max_v s1) (min_v s1) \<noteq> PInf"
  shows "\<exists>s. second_pass pngData 3 s1 = Inr s \<and> evals s = evals s1
    \<and> z_values s = z_values s1 \<and> min_v s = min_v s1 \<and> max_v s = max_v s1
    \<and> (\<forall>i<N. \<forall>j<N. \<exists>z p r b. z_values s1 (i, j) = Some z
          \<and> fle (min_v s1) z \<and> fle z (max_v s1)
          \<and> normalise (min_v s1) (max_v s1) z = Finite p \<and> 0 \<le> p \<and> p \<le> 1
          \<and> red_of (Finite p) = Finite r \<and> 0 \<le> r \<and> r \<le> 255
          \<and> blue_of (Finite p) = Finite b \<and> 0 \<le> b \<and> b \<le> 255
          \<and> pixel_at 3 (rowPointers s) (N - 1 - i) j
              = (word_of_int (trunc r), 0, word_of_int (trunc b)))"
proof -
  note r = first_pass_ranged [OF N s1 nonan]
  have cell: "\<exists>z p r b. z_values s1 (i, j) = Some z
          \<and> fle (min_v s1) z \<and> fle z (max_v s1)
          \<and> normalise (min_v s1) (max_v s1) z = Finite p \<and> 0 \<le> p \<and> p \<le> 1
          \<and> red_of (Finite p) = Finite r \<and> 0 \<le> r \<and> r \<le> 255
          \<and> blue_of (Finite p) = Finite b \<and> 0 \<le> b \<and> b \<le> 255
          \<and> shade (min_v s1) (max_v s1) z = Some (word_of_int (trunc r), 0, word_of_int (trunc b))"
    if ij: "i < N" "j < N" for i j
  proof -
    from r(1) ij obtain z where z: "z_values s1 (i, j) = Some z"
      "fle (min_v s1) z" "fle z (max_v s1)" by blast
    from normalise_range [OF r(2,3) z(2,3) lt fin] z show ?thesis by blast
  qed
  then have ok: "\<forall>i<N. \<forall>j<N. \<exists>z col. z_values s1 (i, j) = Some z
                \<and> shade (min_v s1) (max_v s1) z = Some col" by blast
  have "allocated 3 N N (rowPointers s1)" using a r(4) by simp
  from second_pass_coloured [OF N(2,3) this ok]
  obtain t where t: "second_pass pngData 3 s1 = Inr t" and c: "coloured s1 N N 0 t" by blast
  have px: "\<exists>z. z_values s1 (i, j) = Some z
      \<and> shade (min_v s1) (max_v s1) z = Some (pixel_at 3 (rowPointers t) (N - 1 - i) j)"
    if "i < N" "j < N" for i j
    using c that unfolding coloured_def visited_all by blast
  have "\<exists>z p r b. z_values s1 (i, j) = Some z
          \<and> fle (min_v s1) z \<and> fle z (max_v s1)
          \<and> normalise (min_v s1) (max_v s1) z = Finite p \<and> 0 \<le> p \<and> p \<le> 1
          \<and> red_of (Finite p) = Finite r \<and> 0 \<le> r \<and> r \<le> 255
          \<and> blue_of (Finite p) = Finite b \<and> 0 \<le> b \<and> b \<le> 255
          \<and> pixel_at 3 (rowPointers t) (N - 1 - i) j
              = (word_of_int (trunc r), 0, word_of_int (trunc b))"
    if ij: "i < N" "j < N" for i j
    using cell [OF ij] px [OF ij] by force
  moreover have "evals t = evals s1" "z_values t = z_values s1"
    "min_v t = min_v s1" "max_v t = max_v s1" using c by (simp_all add: coloured_def)
  ultimately show ?thesis using t by blast
qed

lemma surface_run:
  assumes "imgWidth pngData = int N" "imgHeight pngData = int N"
    and "te_compile expression = Some n" "CHR ''y'' \<in> set expression"
    and "first_pass n pngData (entry rows) = Inr s1"
  shows "makeImageData te_compile y0 pngData valuesPerPixel rows expression
           = second_pass pngData valuesPerPixel s1"
  using assms by (simp add: makeImageData_def fxy_check_None_iff plot_surface_def)

subsection \<open>The surface of the sum\<close>

lemma plus_grid:
  assumes N: "2 \<le> N" "N \<le> 32767"
  shows "stored (\<lambda>x y. fadd to_double x y) N 0 0 = Finite 0"
    and "i < N \<Longrightarrow> j < N \<Longrightarrow>
      stored (\<lambda>x y. fadd to_double x y) N i j \<noteq> NaN
      \<and> fle (stored (\<lambda>x y. fadd to_double x y) N 0 0) (stored (\<lambda>x y. fadd to_double x y) N i j)
      \<and> fle (stored (\<lambda>x y. fadd to_double x y) N i j)
          (stored (\<lambda>x y. fadd to_double x y) N (N - 1) (N - 1))"
    and "\<exists>m. stored (\<lambda>x y. fadd to_double x y) N (N - 1) (N - 1) = Finite m \<and> 0 < m"
proof -
  let ?n = "\<lambda>x y. fadd to_double x y"
  have pos: "\<exists>v. position (int N) k = Finite v \<and> 0 \<le> v
           \<and> \<bar>v - real k / real N\<bar> \<le> real k * eps 1" if "k < N" for k
    using position_grid [of N k] that N by simp
  show zero: "stored ?n N 0 0 = Finite 0" by (simp add: stored_def)
  obtain vt where vt: "position (int N) (N - 1) = Finite vt" "0 \<le> vt"
    and et: "\<bar>vt - real (N - 1) / real N\<bar> \<le> real (N - 1) * eps 1"
    using pos [of "N - 1"] N(1) by auto
  show "stored ?n N i j \<noteq> NaN \<and> fle (stored ?n N 0 0) (stored ?n N i j)
      \<and> fle (stored ?n N i j) (stored ?n N (N - 1) (N - 1))" if ij: "i < N" "j < N"
  proof -
    obtain vi where vi: "position (int N) i = Finite vi" "0 \<le> vi" using pos [OF ij(1)] by auto
    obtain vj where vj: "position (int N) j = Finite vj" "0 \<le> vj" using pos [OF ij(2)] by auto
    have "fle (position (int N) i) (position (int N) (N - 1))"
      using ij(1) N by (intro position_mono) simp_all
    then have it: "vi \<le> vt" using vt by (simp add: vi)
    have "fle (position (int N) j) (position (int N) (N - 1))"
      using ij(2) N by (intro position_mono) simp_all
    then have jt: "vj \<le> vt" using vt by (simp add: vj)
    have "fle (narrow to_float (to_double 0)) (narrow to_float (to_double (vi + vj)))"
      using vi(2) vj(2) by (intro narrow_mono to_double_mono) simp
    moreover have "fle (narrow to_float (to_double (vi + vj)))
        (narrow to_float (to_double (vt + vt)))"
      using it jt by (intro narrow_mono to_double_mono) simp
    ultimately show ?thesis using vt by (simp add: stored_def vi vj)
  qed
  have e: "eps 1 < 1 / 32767" by (simp add: eps_1)
  have "1 / 32767 \<le> 1 / real N" using N by (simp add: divide_simps)
  with e have gap: "0 < 1 / real N - eps 1" by simp
  have "1 \<le> real (N - 1)" using N(1) by simp
  then have "0 < real (N - 1) * (1 / real N - eps 1)" using gap by simp
  also have "\<dots> = real (N - 1) / real N - real (N - 1) * eps 1" by (simp add: algebra_simps)
  also have "\<dots> \<le> vt" using et by (simp add: abs_le_iff)
  finally have v0: "0 < vt" .
  have "real (N - 1) * eps 1 \<le> 32767 * eps 1"
    using N(2) by (intro mult_right_mono) (simp_all add: eps_1)
  also have "\<dots> \<le> 1" by (simp add: eps_1)
  finally have "real (N - 1) * eps 1 \<le> 1" .
  moreover have "real (N - 1) / real N \<le> 1" using N(1) by simp
  ultimately have v2: "vt \<le> 2" using et by (simp add: abs_le_iff)
  have ff: "to_float vt = Finite vt"
    using position_float [of "int N" "N - 1"] by (simp only: vt(1) narrow.simps)
  then have fd: "to_double vt = Finite vt"
    using to_float_Finite [of vt vt] by (intro to_double_float)
  have d4: "to_double 4 = Finite 4" using to_double_int [of 4] by simp
  have f4: "to_float 4 = Finite 4" using to_float_int [of 4] by simp
  obtain w where w: "to_double (2 * vt) = Finite w" "vt \<le> w" "w \<le> 4"
    using to_double_between [of vt "2 * vt" 4 vt 4] v0 v2 fd d4 by auto
  obtain m where m: "to_float w = Finite m" "vt \<le> m"
    using to_float_between [of vt w 4 vt 4] w ff f4 by auto
  have "stored ?n N (N - 1) (N - 1) = Finite m" using vt by (simp add: stored_def w m)
  with m(2) v0 show "\<exists>m. stored ?n N (N - 1) (N - 1) = Finite m \<and> 0 < m" by auto
qed

lemma plus_pass:
  assumes N: "2 \<le> N" "N \<le> 32767" "imgWidth pngData = int N" "imgHeight pngData = int N"
    and s1: "first_pass (\<lambda>x y. fadd to_double x y) pngData (entry rows) = Inr s1"
  shows "min_v s1 = Finite 0"
    and "max_v s1 = stored (\<lambda>x y. fadd to_double x y) N (N - 1) (N - 1)"
    and "\<forall>i<N. \<forall>j<N. z_values s1 (i, j) = Some (stored (\<lambda>x y. fadd to_double x y) N i j)"
    and "\<forall>i<N. \<forall>j<N. z_values s1 (i, j) \<noteq> Some NaN"
    and "flt (min_v s1) (max_v s1)"
    and "fsub to_float (max_v s1) (min_v s1) \<noteq> PInf"
proof -
  let ?n = "\<lambda>x y. fadd to_double x y"
  have pos: "0 < N" using N(1) by simp
  note g = plus_grid [OF N(1,2)]
  have "min_v s1 = stored ?n N 0 0"
    using pos N(3,4) s1 pos pos
  proof (rule first_pass_least)
    show "stored ?n N 0 0 \<noteq> NaN" by (simp add: g(1))
    then show "stored ?n N 0 0 \<noteq> NaN" .
    show "\<forall>i<N. \<forall>j<N. stored ?n N i j \<noteq> NaN \<longrightarrow> fle (stored ?n N 0 0) (stored ?n N i j)"
      using g(2) by blast
  qed
  then show mn: "min_v s1 = Finite 0" by (simp add: g(1))
  have top: "N - 1 < N" using pos by simp
  show mx: "max_v s1 = stored ?n N (N - 1) (N - 1)"
    using pos N(3,4) s1 top top
  proof (rule first_pass_greatest)
    show "stored ?n N (N - 1) (N - 1) \<noteq> NaN" using g(3) by auto
    show "stored ?n N 0 0 \<noteq> NaN" by (simp add: g(1))
    show "\<forall>i<N. \<forall>j<N. stored ?n N i j \<noteq> NaN \<longrightarrow>
        fle (stored ?n N i j) (stored ?n N (N - 1) (N - 1))"
      using g(2) by blast
  qed
  show zs: "\<forall>i<N. \<forall>j<N. z_values s1 (i, j) = Some (stored ?n N i j)"
    using first_pass_extremes [OF pos N(3,4), of ?n rows] s1 by auto
  then show "\<forall>i<N. \<forall>j<N. z_values s1 (i, j) \<noteq> Some NaN"
    using g(2) by auto
  obtain m where m: "stored ?n N (N - 1) (N - 1) = Finite m" "0 < m" using g(3) by blast
  show "flt (min_v s1) (max_v s1)" using mx m by (simp add: mn)
  have "to_float m = Finite m"
    using stored_float [of ?n N "N - 1" "N - 1"] by (simp only: m(1) narrow.simps)
  then show "fsub to_float (max_v s1) (min_v s1) \<noteq> PInf"
    using mx m by (simp add: mn fsub_def)
qed

lemma surface_plus:
  assumes N: "2 \<le> N" "N \<le> 32767" "imgWidth pngData = int N" "imgHeight pngData = int N"
    and a: "allocated 3 N N rows"
    and e: "te_compile ''x+y'' = Some (\<lambda>x y. fadd to_double x y)"
  shows "\<exists>s. makeImageData te_compile y0 pngData 3 rows ''x+y'' = Inr s
    \<and> pixel_at 3 (rowPointers s) (N - 1) 0 = (255, 0, 0)
    \<and> pixel_at 3 (rowPointers s) 0 (N - 1) = (0, 0, 255)"
proof -
  let ?n = "\<lambda>x y. fadd to_double x y"
  have pos: "0 < N" using N(1) by simp
  obtain s1 where s1: "first_pass ?n pngData (entry rows) = Inr s1"
    using first_pass_sampled [OF pos N(3,4), of ?n rows] by blast
  note p = plus_pass [OF N s1]
  obtain m where m: "stored ?n N (N - 1) (N - 1) = Finite m" "0 < m"
    using plus_grid(3) [OF N(1,2)] by blast
  have fm: "to_float m = Finite m"
    using stored_float [of ?n N "N - 1" "N - 1"] by (simp only: m(1) narrow.simps)
  have mx: "max_v s1 = Finite m" using p(2) m by simp
  have y: "CHR ''y'' \<in> set ''x+y''" by simp
  obtain s where s: "second_pass pngData 3 s1 = Inr s"
    and px: "\<forall>i<N. \<forall>j<N. \<exists>z p r b. z_values s1 (i, j) = Some z
          \<and> fle (min_v s1) z \<and> fle z (max_v s1)
          \<and> normalise (min_v s1) (max_v s1) z = Finite p \<and> 0 \<le> p \<and> p \<le> 1
          \<and> red_of (Finite p) = Finite r \<and> 0 \<le> r \<and> r \<le> 255
          \<and> blue_of (Finite p) = Finite b \<and> 0 \<le> b \<and> b \<le> 255
          \<and> pixel_at 3 (rowPointers s) (N - 1 - i) j
              = (word_of_int (trunc r), 0, word_of_int (trunc b))"
    using surface_pixels [OF pos N(3,4) a s1 p(4,5,6)] by blast
  have run: "makeImageData te_compile y0 pngData 3 rows ''x+y'' = Inr s"
    using surface_run [where te_compile = te_compile and expression = "''x+y''" and n = ?n,
        OF N(3,4) e y s1] s by simp
  have z0: "z_values s1 (0, 0) = Some (Finite 0)"
    using p(3) pos plus_grid(1) [OF N(1,2)] by simp
  have top: "N - 1 < N" using pos by simp
  have zN: "z_values s1 (N - 1, N - 1) = Some (Finite m)"
    using p(3) top m by simp
  have n0: "normalise (Finite 0) (Finite m) (Finite 0) = Finite 0"
    using m(2) by (simp add: normalise_def fsub_def fm)
  have nm: "normalise (Finite 0) (Finite m) (Finite m) = Finite 1"
    using m(2) by (simp add: normalise_def fsub_def fm)
  have r0: "red_of (Finite 0) = Finite 255" "blue_of (Finite 0) = Finite 0"
    by (simp_all add: red_of_def blue_of_def fsub_def)
  have r1: "red_of (Finite 1) = Finite 0" "blue_of (Finite 1) = Finite 255"
    by (simp_all add: red_of_def blue_of_def fsub_def)
  have first: "pixel_at 3 (rowPointers s) (N - 1) 0 = (255, 0, 0)"
    using px [rule_format, OF pos pos] z0 by (auto simp add: p(1) mx n0 r0 trunc_def)
  have last: "pixel_at 3 (rowPointers s) 0 (N - 1) = (0, 0, 255)"
    using px [rule_format, OF top top] zN by (auto simp add: p(1) mx nm r1 trunc_def)
  from run first last show ?thesis by blast
qed

text \<open>
  Claim C2 holds of the program in this form. On a square image of side \<open>N\<close>, with a
  buffer of at least \<open>N\<close> rows of \<open>N\<close> pixels, when no stored value is a NaN,
  \<open>max > min\<close> and \<open>max - min\<close> does not overflow, the run ends normally and the
  pixel in row \<open>(N - 1) - i\<close>, column \<open>j\<close> is \<open>(red, 0, blue)\<close>: the \<^verbatim>\<open>float\<close> values
  of \<open>255 * (1 - p)\<close> and \<open>255 * p\<close> converted to a byte, where \<open>p\<close> is the
  \<^verbatim>\<open>float\<close> value of \<open>(z - min) / (max - min)\<close> and \<open>z\<close> the value stored for the cell
  \<open>(i, j)\<close>, every operation rounded to \<^verbatim>\<open>float\<close>. For \<open>x+y\<close> on a grid of 2 by 2
  to 32767 by 32767 the cell \<open>(0, 0)\<close> is pure red and the cell \<open>(N - 1, N - 1)\<close> pure
  blue.
\<close>

theorem surface_colours:
  assumes "0 < N" and "imgWidth pngData = int N" and "imgHeight pngData = int N"
    and "allocated 3 N N rows"
  shows "(\<forall>n s1. te_compile expression = Some n \<and> CHR ''y'' \<in> set expression
            \<and> first_pass n pngData (entry rows) = Inr s1
            \<and> (\<forall>i<N. \<forall>j<N. z_values s1 (i, j) \<noteq> Some NaN)
            \<and> flt (min_v s1) (max_v s1) \<and> fsub to_float (max_v s1) (min_v s1) \<noteq> PInf \<longrightarrow>
          (\<exists>s. makeImageData te_compile y0 pngData 3 rows expression = Inr s
            \<and> (\<forall>i<N. \<forall>j<N. \<exists>z p red blue. z_values s1 (i, j) = Some z
                  \<and> p = normalise (min_v s1) (max_v s1) z
                  \<and> to_byte (red_of p) = Some red \<and> to_byte (blue_of p) = Some blue
                  \<and> pixel_at 3 (rowPointers s) (N - 1 - i) j = (red, 0, blue))))
       \<and> (2 \<le> N \<and> N \<le> 32767 \<and> te_compile ''x+y'' = Some (\<lambda>x y. fadd to_double x y) \<longrightarrow>
          (\<exists>s. makeImageData te_compile y0 pngData 3 rows ''x+y'' = Inr s
            \<and> pixel_at 3 (rowPointers s) (N - 1) 0 = (255, 0, 0)
            \<and> pixel_at 3 (rowPointers s) 0 (N - 1) = (0, 0, 255)))"
proof (intro conjI allI impI)
  fix n s1
  assume h: "te_compile expression = Some n \<and> CHR ''y'' \<in> set expression
            \<and> first_pass n pngData (entry rows) = Inr s1
            \<and> (\<forall>i<N. \<forall>j<N. z_values s1 (i, j) \<noteq> Some NaN)
            \<and> flt (min_v s1) (max_v s1) \<and> fsub to_float (max_v s1) (min_v s1) \<noteq> PInf"
  then have s1: "first_pass n pngData (entry rows) = Inr s1"
    and nonan: "\<forall>i<N. \<forall>j<N. z_values s1 (i, j) \<noteq> Some NaN"
    and lt: "flt (min_v s1) (max_v s1)" and fin: "fsub to_float (max_v s1) (min_v s1) \<noteq> PInf"
    by simp_all
  obtain s where s: "second_pass pngData 3 s1 = Inr s"
    and px: "\<forall>i<N. \<forall>j<N. \<exists>z p r b. z_values s1 (i, j) = Some z
          \<and> fle (min_v s1) z \<and> fle z (max_v s1)
          \<and> normalise (min_v s1) (max_v s1) z = Finite p \<and> 0 \<le> p \<and> p \<le> 1
          \<and> red_of (Finite p) = Finite r \<and> 0 \<le> r \<and> r \<le> 255
          \<and> blue_of (Finite p) = Finite b \<and> 0 \<le> b \<and> b \<le> 255
          \<and> pixel_at 3 (rowPointers s) (N - 1 - i) j
              = (word_of_int (trunc r), 0, word_of_int (trunc b))"
    using surface_pixels [OF assms s1 nonan lt fin] by blast
  have run: "makeImageData te_compile y0 pngData 3 rows expression = Inr s"
    using surface_run [where te_compile = te_compile and expression = expression and n = n,
        OF assms(2,3) _ _ s1] h s by simp
  have "\<exists>z p red blue. z_values s1 (i, j) = Some z
                  \<and> p = normalise (min_v s1) (max_v s1) z
                  \<and> to_byte (red_of p) = Some red \<and> to_byte (blue_of p) = Some blue
                  \<and> pixel_at 3 (rowPointers s) (N - 1 - i) j = (red, 0, blue)"
    if ij: "i < N" "j < N" for i j
  proof -
    from px ij obtain z p r b where "z_values s1 (i, j) = Some z"
      and "normalise (min_v s1) (max_v s1) z = Finite p"
      and "red_of (Finite p) = Finite r" "0 \<le> r" "r \<le> 255"
      and "blue_of (Finite p) = Finite b" "0 \<le> b" "b \<le> 255"
      and "pixel_at 3 (rowPointers s) (N - 1 - i) j
              = (word_of_int (trunc r), 0, word_of_int (trunc b))"
      by blast
    then show ?thesis by (simp add: to_byte_Finite)
  qed
  with run show "\<exists>s. makeImageData te_compile y0 pngData 3 rows expression = Inr s
            \<and> (\<forall>i<N. \<forall>j<N. \<exists>z p red blue. z_values s1 (i, j) = Some z
                  \<and> p = normalise (min_v s1) (max_v s1) z
                  \<and> to_byte (red_of p) = Some red \<and> to_byte (blue_of p) = Some blue
                  \<and> pixel_at 3 (rowPointers s) (N - 1 - i) j = (red, 0, blue))"
    by blast
next
  assume "2 \<le> N \<and> N \<le> 32767 \<and> te_compile ''x+y'' = Some (\<lambda>x y. fadd to_double x y)"
  then show "\<exists>s. makeImageData te_compile y0 pngData 3 rows ''x+y'' = Inr s
            \<and> pixel_at 3 (rowPointers s) (N - 1) 0 = (255, 0, 0)
            \<and> pixel_at 3 (rowPointers s) 0 (N - 1) = (0, 0, 255)"
    using surface_plus [OF _ _ assms(2,3,4)] by blast
qed

lemma examples_plus: "examples ''x+y'' = Some (\<lambda>x y. fadd to_double x y)"
  by (simp add: examples_def)

theorem surface_colours_witness:
  "\<exists>s. makeImageData examples (Finite 0) (rgb 50 50) 3 (blank 50 50) ''x+y'' = Inr s
     \<and> pixel_at 3 (rowPointers s) 49 0 = (255, 0, 0)
     \<and> pixel_at 3 (rowPointers s) 0 49 = (0, 0, 255)"
  using surface_colours [of 50 "rgb 50 50" "blank 50 50" examples "''x+y''" "Finite 0"]
  by (simp add: rgb_def examples_plus allocated_blank)

subsection \<open>Rounding and NaN in the colours\<close>

lemma position_4:
  "position 4 (Suc 0) = Finite (1 / 4)"
  "position 4 2 = Finite (1 / 2)"
  "position 4 3 = Finite (3 / 4)"
proof -
  have d: "to_double (1 / 4) = Finite (1 / 4)" "to_double (3 / 4) = Finite (3 / 4)"
    using to_double_exact [of 1 "- 2"] to_double_exact [of 3 "- 2"] by simp_all
  have f: "to_float (1 / 4) = Finite (1 / 4)" "to_float (3 / 4) = Finite (3 / 4)"
    using to_float_exact [of 1 "- 2"] to_float_exact [of 3 "- 2"] by simp_all
  have i: "increment 4 = Finite (1 / 4)"
    by (simp add: increment_def double_of_int_exact d)
  show 1: "position 4 (Suc 0) = Finite (1 / 4)"
    by (simp add: i advance_def d f)
  have "position 4 (Suc (Suc 0)) = Finite (1 / 2)"
    by (simp add: i advance_def d f)
  then show 2: "position 4 2 = Finite (1 / 2)" by (simp add: numeral_2_eq_2)
  have "position 4 (Suc (Suc (Suc 0))) = Finite (3 / 4)"
    by (simp add: i advance_def d f)
  then show "position 4 3 = Finite (3 / 4)" by (simp add: numeral_3_eq_3)
qed

lemma shade_p: "to_float (1 / 3) = Finite (11184811 / 33554432)"
  using to_float_at [of "- 2" "1 / 3"] by (simp add: nearest_even_def)

lemma shade_q: "to_float (22369621 / 33554432) = Finite (5592405 / 8388608)"
  using to_float_at [of "- 1" "22369621 / 33554432"] by (simp add: nearest_even_def)

lemma shade_r: "to_float (1426063275 / 8388608) = Finite (11141119 / 65536)"
  using to_float_at [of 7 "1426063275 / 8388608"] by (simp add: nearest_even_def)

lemma shade_b: "to_float (2852126805 / 33554432) = Finite (85)"
  using to_float_at [of 6 "2852126805 / 33554432"] by (simp add: nearest_even_def)

lemma plus_4:
  "stored (\<lambda>x y. fadd to_double x y) 4 2 0 = Finite (1 / 2)"
  "stored (\<lambda>x y. fadd to_double x y) 4 3 3 = Finite (3 / 2)"
  using to_double_exact [of 3 "- 1"] to_float_exact [of 3 "- 1"]
  by (simp_all add: stored_def position_4)

lemma shade_third:
  "normalise (Finite 0) (Finite (3 / 2)) (Finite (1 / 2)) = Finite (11184811 / 33554432)"
  "red_of (Finite (11184811 / 33554432)) = Finite (11141119 / 65536)"
  "blue_of (Finite (11184811 / 33554432)) = Finite 85"
  using to_float_exact [of 3 "- 1"]
  by (simp_all add: normalise_def red_of_def blue_of_def fsub_def shade_p shade_q shade_r shade_b)

lemma plus_4_run:
  "\<exists>s. makeImageData examples (Finite 0) (rgb 4 4) 3 (blank 4 4) ''x+y'' = Inr s
     \<and> z_values s (2, 0) = Some (Finite (1 / 2))
     \<and> min_v s = Finite 0 \<and> max_v s = Finite (3 / 2)
     \<and> pixel_at 3 (rowPointers s) 1 0 = (169, 0, 85)"
proof -
  let ?n = "\<lambda>x y. fadd to_double x y"
  have N: "2 \<le> (4::nat)" "(4::nat) \<le> 32767" "imgWidth (rgb 4 4) = int 4"
    "imgHeight (rgb 4 4) = int 4" by (simp_all add: rgb_def)
  obtain s1 where s1: "first_pass ?n (rgb 4 4) (entry (blank 4 4)) = Inr s1"
    using first_pass_sampled [OF _ N(3,4), of ?n "blank 4 4"] by auto
  note p = plus_pass [OF N s1]
  have mn: "min_v s1 = Finite 0" by (rule p(1))
  have mx: "max_v s1 = Finite (3 / 2)" using p(2) by (simp add: plus_4)
  have z: "z_values s1 (2, 0) = Some (Finite (1 / 2))" using p(3) by (simp add: plus_4)
  obtain s where s: "second_pass (rgb 4 4) 3 s1 = Inr s"
    and same: "z_values s = z_values s1" "min_v s = min_v s1" "max_v s = max_v s1"
    and px: "\<forall>i<4. \<forall>j<4. \<exists>z p r b. z_values s1 (i, j) = Some z
          \<and> fle (min_v s1) z \<and> fle z (max_v s1)
          \<and> normalise (min_v s1) (max_v s1) z = Finite p \<and> 0 \<le> p \<and> p \<le> 1
          \<and> red_of (Finite p) = Finite r \<and> 0 \<le> r \<and> r \<le> 255
          \<and> blue_of (Finite p) = Finite b \<and> 0 \<le> b \<and> b \<le> 255
          \<and> pixel_at 3 (rowPointers s) (4 - 1 - i) j
              = (word_of_int (trunc r), 0, word_of_int (trunc b))"
    using surface_pixels [OF _ N(3,4) allocated_blank s1 p(4,5,6)] by auto
  from px [rule_format, of 2 0] obtain z' p r b where c: "z_values s1 (2, 0) = Some z'"
    "normalise (min_v s1) (max_v s1) z' = Finite p"
    "red_of (Finite p) = Finite r" "blue_of (Finite p) = Finite b"
    "pixel_at 3 (rowPointers s) (4 - 1 - 2) 0 = (word_of_int (trunc r), 0, word_of_int (trunc b))"
    by auto
  have z': "z' = Finite (1 / 2)" using c(1) z by simp
  have p': "p = 11184811 / 33554432" using c(2) unfolding z' mn mx shade_third by simp
  have r: "r = 11141119 / 65536" using c(3) unfolding p' shade_third by simp
  have b: "b = 85" using c(4) unfolding p' shade_third by simp
  have pixel: "pixel_at 3 (rowPointers s) 1 0 = (169, 0, 85)"
    using c(5) by (simp add: r b trunc_def)
  have "makeImageData examples (Finite 0) (rgb 4 4) 3 (blank 4 4) ''x+y'' = Inr s"
    using surface_run [where te_compile = examples and expression = "''x+y''" and n = ?n,
        OF N(3,4) examples_plus _ s1] s by simp
  with pixel z mn mx same show ?thesis by simp
qed

lemma pole_2:
  "stored (\<lambda>x y. fadd to_double x
      (fdiv to_double (Finite 0) (fsub to_double (Finite (1 / 2)) y))) 2 0 0 = Finite 0"
  "stored (\<lambda>x y. fadd to_double x
      (fdiv to_double (Finite 0) (fsub to_double (Finite (1 / 2)) y))) 2 0 (Suc 0) = NaN"
  "stored (\<lambda>x y. fadd to_double x
      (fdiv to_double (Finite 0) (fsub to_double (Finite (1 / 2)) y))) 2 (Suc 0) 0
     = Finite (1 / 2)"
  "stored (\<lambda>x y. fadd to_double x
      (fdiv to_double (Finite 0) (fsub to_double (Finite (1 / 2)) y))) 2 (Suc 0) (Suc 0) = NaN"
  by (simp_all add: stored_def position_2 fsub_def del: position.simps(2))

lemma examples_pole:
  "examples ''x+0/(0.5-y)'' = Some (\<lambda>x y. fadd to_double x
      (fdiv to_double (Finite 0) (fsub to_double (Finite (1 / 2)) y)))"
  by (simp add: examples_def)

lemma pole_2_pass:
  "\<exists>s. first_pass (the (examples ''x+0/(0.5-y)'')) (rgb 2 2) (entry (blank 2 2)) = Inr s
     \<and> z_values s (0, 0) = Some (Finite 0) \<and> z_values s (0, 1) = Some NaN
     \<and> min_v s = Finite 0 \<and> max_v s = Finite (1 / 2) \<and> rowPointers s = blank 2 2"
proof -
  let ?n = "\<lambda>x y. fadd to_double x
      (fdiv to_double (Finite 0) (fsub to_double (Finite (1 / 2)) y))"
  have N: "0 < (2::nat)" "imgWidth (rgb 2 2) = int 2" "imgHeight (rgb 2 2) = int 2"
    by (simp_all add: rgb_def)
  obtain s where s: "first_pass ?n (rgb 2 2) (entry (blank 2 2)) = Inr s"
    and z: "\<forall>i<2. \<forall>j<2. z_values s (i, j) = Some (stored ?n 2 i j)"
    and rows: "rowPointers s = blank 2 2"
    using first_pass_extremes [OF N, of ?n "blank 2 2"] by auto
  have cases: "i = 0 \<or> i = Suc 0" if "i < 2" for i :: nat using that by auto
  have mn: "min_v s = stored ?n 2 0 0"
    using N s by (rule first_pass_least) (auto simp add: pole_2 dest!: cases)
  have mx: "max_v s = stored ?n 2 (Suc 0) 0"
    using N s by (rule first_pass_greatest) (auto simp add: pole_2 dest!: cases)
  from z have "z_values s (0, 0) = Some (Finite 0)" "z_values s (0, 1) = Some NaN"
    by (simp_all add: pole_2)
  with s mn mx rows show ?thesis by (simp add: pole_2 examples_pole)
qed

lemma pole_2_run:
  "\<exists>s. makeImageData examples (Finite 0) (rgb 2 2) 3 (blank 2 2) ''x+0/(0.5-y)''
          = Inl (Undefined NotRepresentable, s)
     \<and> z_values s (0, 1) = Some NaN \<and> min_v s = Finite 0 \<and> max_v s = Finite (1 / 2)"
proof -
  let ?n = "the (examples ''x+0/(0.5-y)'')"
  obtain s1 where s1: "first_pass ?n (rgb 2 2) (entry (blank 2 2)) = Inr s1"
    and z0: "z_values s1 (0, 0) = Some (Finite 0)" and z1: "z_values s1 (0, 1) = Some NaN"
    and mn: "min_v s1 = Finite 0" and mx: "max_v s1 = Finite (1 / 2)"
    and rows: "rowPointers s1 = blank 2 2"
    using pole_2_pass by blast
  have N: "imgWidth (rgb 2 2) = int 2" "imgHeight (rgb 2 2) = int 2"
    by (simp_all add: rgb_def)
  have a: "allocated 3 2 2 (rowPointers s1)" by (simp add: rows allocated_blank)
  have first: "shade (min_v s1) (max_v s1) (Finite 0) = Some (255, 0, 0)"
    by (simp add: mn mx shade_def normalise_def red_of_def blue_of_def fsub_def
        to_byte_def trunc_def)
  have ok: "\<forall>a b. visited 2 0 1 a b \<longrightarrow>
      (\<exists>z col. z_values s1 (a, b) = Some z \<and> shade (min_v s1) (max_v s1) z = Some col)"
    using z0 first by (auto simp add: visited_def)
  have bad: "shade (min_v s1) (max_v s1) NaN = None"
    by (simp add: shade_def normalise_def)
  obtain t where t: "second_pass (rgb 2 2) 3 s1 = Inl (Undefined NotRepresentable, t)"
    and c: "coloured s1 2 0 1 t"
    using second_pass_fault [OF N a _ _ ok z1 bad] by auto
  have e: "examples ''x+0/(0.5-y)'' = Some ?n" by (simp add: examples_def)
  have "makeImageData examples (Finite 0) (rgb 2 2) 3 (blank 2 2) ''x+0/(0.5-y)''
      = Inl (Undefined NotRepresentable, t)"
    using surface_run [where te_compile = examples and expression = "''x+0/(0.5-y)''"
        and n = ?n, OF N e _ s1] t by simp
  moreover have "z_values t = z_values s1" "min_v t = min_v s1" "max_v t = max_v s1"
    using c by (simp_all add: coloured_def)
  ultimately show ?thesis using z1 mn mx by auto
qed

text \<open>
  Claim C2 as stated fails. For \<open>x+y\<close> on a grid of 4 by 4 the cell \<open>(2, 0)\<close> holds
  \<open>z = 1/2\<close> with \<open>min = 0\<close> and \<open>max = 3/2\<close>, so that \<open>255 * (1 - p)\<close> is 170 for
  \<open>p = (z - min) / (max - min)\<close>; the pixel written is \<open>(169, 0, 85)\<close>, since \<open>p\<close> and
  \<open>1 - p\<close> are rounded to \<^verbatim>\<open>float\<close>. For \<open>x+0/(0.5-y)\<close> on a grid of 2 by 2,
  \<open>max = 1/2\<close> is greater than \<open>min = 0\<close>, but the cell \<open>(0, 1)\<close> holds a NaN, and
  the red channel value of that cell does not convert to a byte.
\<close>

theorem surface_colours_counterexample:
  "pixel_at 3 (rowPointers (final
       (makeImageData examples (Finite 0) (rgb 4 4) 3 (blank 4 4) ''x+y''))) 1 0 = (169, 0, 85)
   \<and> z_values (final (makeImageData examples (Finite 0) (rgb 4 4) 3 (blank 4 4) ''x+y'')) (2, 0)
       = Some (Finite (1 / 2))
   \<and> min_v (final (makeImageData examples (Finite 0) (rgb 4 4) 3 (blank 4 4) ''x+y''))
       = Finite 0
   \<and> max_v (final (makeImageData examples (Finite 0) (rgb 4 4) 3 (blank 4 4) ''x+y''))
       = Finite (3 / 2)
   \<and> trunc (255 * (1 - (1 / 2 - 0) / (3 / 2 - 0))) = 170
   \<and> makeImageData examples (Finite 0) (rgb 2 2) 3 (blank 2 2) ''x+0/(0.5-y)''
       = Inl (Undefined NotRepresentable,
           final (makeImageData examples (Finite 0) (rgb 2 2) 3 (blank 2 2) ''x+0/(0.5-y)''))
   \<and> z_values (final
         (makeImageData examples (Finite 0) (rgb 2 2) 3 (blank 2 2) ''x+0/(0.5-y)'')) (0, 1)
       = Some NaN
   \<and> flt (min_v (final
           (makeImageData examples (Finite 0) (rgb 2 2) 3 (blank 2 2) ''x+0/(0.5-y)'')))
         (max_v (final
           (makeImageData examples (Finite 0) (rgb 2 2) 3 (blank 2 2) ''x+0/(0.5-y)'')))"
proof -
  obtain s where s: "makeImageData examples (Finite 0) (rgb 4 4) 3 (blank 4 4) ''x+y'' = Inr s"
    and a: "z_values s (2, 0) = Some (Finite (1 / 2))" "min_v s = Finite 0"
      "max_v s = Finite (3 / 2)" "pixel_at 3 (rowPointers s) 1 0 = (169, 0, 85)"
    using plus_4_run by blast
  obtain t where t: "makeImageData examples (Finite 0) (rgb 2 2) 3 (blank 2 2) ''x+0/(0.5-y)''
          = Inl (Undefined NotRepresentable, t)"
    and b: "z_values t (0, 1) = Some NaN" "min_v t = Finite 0" "max_v t = Finite (1 / 2)"
    using pole_2_run by blast
  have "trunc (255 * (1 - (1 / 2 - 0) / (3 / 2 - 0))) = 170" by (simp add: trunc_def)
  with a b show ?thesis by (simp add: s t final_def)
qed

subsection \<open>The stored values and the normalised value\<close>

text \<open>
  Claim C10 holds of the program in this form. When no stored value is a NaN, every
  stored value lies between \<open>min\<close> and \<open>max\<close> at the end of the first pass. When
  moreover \<open>max > min\<close> and \<open>max - min\<close> does not overflow, the second pass ends
  normally, and for every cell the value \<open>p\<close> it computes lies in \<open>[0, 1]\<close>, both
  channel values lie in \<open>[0, 255]\<close>, and the bytes written to the pixel of the cell are
  their integral parts.
\<close>

theorem normalised_in_range:
  assumes "0 < N" and "imgWidth pngData = int N" and "imgHeight pngData = int N"
    and "allocated 3 N N rows"
    and "first_pass n pngData (entry rows) = Inr s1"
    and "\<forall>i<N. \<forall>j<N. z_values s1 (i, j) \<noteq> Some NaN"
  shows "(\<forall>i<N. \<forall>j<N. \<exists>z. z_values s1 (i, j) = Some z
            \<and> fle (min_v s1) z \<and> fle z (max_v s1))
    \<and> (flt (min_v s1) (max_v s1) \<and> fsub to_float (max_v s1) (min_v s1) \<noteq> PInf \<longrightarrow>
        (\<exists>s. second_pass pngData 3 s1 = Inr s
          \<and> (\<forall>i<N. \<forall>j<N. \<exists>z p r b. z_values s1 (i, j) = Some z
                \<and> normalise (min_v s1) (max_v s1) z = Finite p \<and> 0 \<le> p \<and> p \<le> 1
                \<and> red_of (Finite p) = Finite r \<and> 0 \<le> r \<and> r \<le> 255
                \<and> blue_of (Finite p) = Finite b \<and> 0 \<le> b \<and> b \<le> 255
                \<and> pixel_at 3 (rowPointers s) (N - 1 - i) j
                    = (word_of_int (trunc r), 0, word_of_int (trunc b))
                \<and> 0 \<le> trunc r \<and> trunc r \<le> 255 \<and> 0 \<le> trunc b \<and> trunc b \<le> 255)))"
proof (intro conjI impI)
  show "\<forall>i<N. \<forall>j<N. \<exists>z. z_values s1 (i, j) = Some z \<and> fle (min_v s1) z \<and> fle z (max_v s1)"
    using first_pass_ranged(1) [OF assms(1,2,3,5,6)] by blast
next
  assume h: "flt (min_v s1) (max_v s1) \<and> fsub to_float (max_v s1) (min_v s1) \<noteq> PInf"
  then obtain s where s: "second_pass pngData 3 s1 = Inr s"
    and px: "\<forall>i<N. \<forall>j<N. \<exists>z p r b. z_values s1 (i, j) = Some z
          \<and> fle (min_v s1) z \<and> fle z (max_v s1)
          \<and> normalise (min_v s1) (max_v s1) z = Finite p \<and> 0 \<le> p \<and> p \<le> 1
          \<and> red_of (Finite p) = Finite r \<and> 0 \<le> r \<and> r \<le> 255
          \<and> blue_of (Finite p) = Finite b \<and> 0 \<le> b \<and> b \<le> 255
          \<and> pixel_at 3 (rowPointers s) (N - 1 - i) j
              = (word_of_int (trunc r), 0, word_of_int (trunc b))"
    using surface_pixels [OF assms] by blast
  have "\<exists>z p r b. z_values s1 (i, j) = Some z
                \<and> normalise (min_v s1) (max_v s1) z = Finite p \<and> 0 \<le> p \<and> p \<le> 1
                \<and> red_of (Finite p) = Finite r \<and> 0 \<le> r \<and> r \<le> 255
                \<and> blue_of (Finite p) = Finite b \<and> 0 \<le> b \<and> b \<le> 255
                \<and> pixel_at 3 (rowPointers s) (N - 1 - i) j
                    = (word_of_int (trunc r), 0, word_of_int (trunc b))
                \<and> 0 \<le> trunc r \<and> trunc r \<le> 255 \<and> 0 \<le> trunc b \<and> trunc b \<le> 255"
    if ij: "i < N" "j < N" for i j
  proof -
    from px ij obtain z p r b where c: "z_values s1 (i, j) = Some z"
      "normalise (min_v s1) (max_v s1) z = Finite p" "0 \<le> p" "p \<le> 1"
      "red_of (Finite p) = Finite r" "0 \<le> r" "r \<le> 255"
      "blue_of (Finite p) = Finite b" "0 \<le> b" "b \<le> 255"
      "pixel_at 3 (rowPointers s) (N - 1 - i) j
              = (word_of_int (trunc r), 0, word_of_int (trunc b))"
      by blast
    with trunc_byte [OF c(6,7)] trunc_byte [OF c(9,10)] show ?thesis by blast
  qed
  with s show "\<exists>s. second_pass pngData 3 s1 = Inr s
          \<and> (\<forall>i<N. \<forall>j<N. \<exists>z p r b. z_values s1 (i, j) = Some z
                \<and> normalise (min_v s1) (max_v s1) z = Finite p \<and> 0 \<le> p \<and> p \<le> 1
                \<and> red_of (Finite p) = Finite r \<and> 0 \<le> r \<and> r \<le> 255
                \<and> blue_of (Finite p) = Finite b \<and> 0 \<le> b \<and> b \<le> 255
                \<and> pixel_at 3 (rowPointers s) (N - 1 - i) j
                    = (word_of_int (trunc r), 0, word_of_int (trunc b))
                \<and> 0 \<le> trunc r \<and> trunc r \<le> 255 \<and> 0 \<le> trunc b \<and> trunc b \<le> 255)"
    by blast
qed

theorem normalised_in_range_witness:
  "\<exists>s1 s. first_pass (\<lambda>x y. fadd to_double x y) (rgb 2 2) (entry (blank 2 2)) = Inr s1
     \<and> second_pass (rgb 2 2) 3 s1 = Inr s
     \<and> z_values s1 (1, 0) = Some (Finite (1 / 2))
     \<and> min_v s1 = Finite 0 \<and> max_v s1 = Finite 1
     \<and> normalise (min_v s1) (max_v s1) (Finite (1 / 2)) = Finite (1 / 2)
     \<and> pixel_at 3 (rowPointers s) 0 0 = (127, 0, 127)"
proof -
  let ?n = "\<lambda>x y. fadd to_double x y"
  have N: "2 \<le> (2::nat)" "(2::nat) \<le> 32767" "imgWidth (rgb 2 2) = int 2"
    "imgHeight (rgb 2 2) = int 2" by (simp_all add: rgb_def)
  obtain s1 where s1: "first_pass ?n (rgb 2 2) (entry (blank 2 2)) = Inr s1"
    using first_pass_sampled [OF _ N(3,4), of ?n "blank 2 2"] by auto
  note p = plus_pass [OF N s1]
  have mn: "min_v s1 = Finite 0" by (rule p(1))
  have mx: "max_v s1 = Finite 1" using p(2) by (simp add: plus_2)
  have z: "z_values s1 (1, 0) = Some (Finite (1 / 2))" using p(3) by (simp add: plus_2)
  have half: "to_float (255 / 2) = Finite (255 / 2)"
    using to_float_exact [of 255 "- 1"] by simp
  have nh: "normalise (Finite 0) (Finite 1) (Finite (1 / 2)) = Finite (1 / 2)"
    by (simp add: normalise_def fsub_def)
  have rb: "red_of (Finite (1 / 2)) = Finite (255 / 2)" "blue_of (Finite (1 / 2)) = Finite (255 / 2)"
    by (simp_all add: red_of_def blue_of_def fsub_def half)
  obtain s where s: "second_pass (rgb 2 2) 3 s1 = Inr s"
    and px: "\<forall>i<2. \<forall>j<2. \<exists>z p r b. z_values s1 (i, j) = Some z
                \<and> normalise (min_v s1) (max_v s1) z = Finite p \<and> 0 \<le> p \<and> p \<le> 1
                \<and> red_of (Finite p) = Finite r \<and> 0 \<le> r \<and> r \<le> 255
                \<and> blue_of (Finite p) = Finite b \<and> 0 \<le> b \<and> b \<le> 255
                \<and> pixel_at 3 (rowPointers s) (2 - 1 - i) j
                    = (word_of_int (trunc r), 0, word_of_int (trunc b))
                \<and> 0 \<le> trunc r \<and> trunc r \<le> 255 \<and> 0 \<le> trunc b \<and> trunc b \<le> 255"
    using normalised_in_range [OF _ N(3,4) allocated_blank s1 p(4)] p(5,6) by auto
  from px [rule_format, of 1 0] obtain z' p r b where c: "z_values s1 (1, 0) = Some z'"
    "normalise (min_v s1) (max_v s1) z' = Finite p"
    "red_of (Finite p) = Finite r" "blue_of (Finite p) = Finite b"
    "pixel_at 3 (rowPointers s) (2 - 1 - 1) 0 = (word_of_int (trunc r), 0, word_of_int (trunc b))"
    by auto
  have z': "z' = Finite (1 / 2)" using c(1) z by simp
  have p': "p = 1 / 2" using c(2) unfolding z' mn mx nh by simp
  have r: "r = 255 / 2" using c(3) unfolding p' rb by simp
  have b: "b = 255 / 2" using c(4) unfolding p' rb by simp
  have "pixel_at 3 (rowPointers s) 0 0 = (127, 0, 127)"
    using c(5) by (simp add: r b trunc_def)
  with s1 s z mn mx nh show ?thesis by auto
qed

text \<open>
  Claim C10 as stated fails. For \<open>x+0/(0.5-y)\<close> on a grid of 2 by 2 the cell \<open>(0, 1)\<close>
  holds \<open>0 + 0/0\<close>, a NaN, at the end of the first pass, while \<open>min = 0\<close> and
  \<open>max = 1/2\<close>: the value is not between them, though \<open>max > min\<close>, the value \<open>p\<close> of
  the cell is a NaN, and its red channel value does not convert to a byte.
\<close>

theorem normalised_counterexample:
  "z_values (final (first_pass (the (examples ''x+0/(0.5-y)'')) (rgb 2 2) (entry (blank 2 2))))
       (0, 1) = Some NaN
   \<and> min_v (final (first_pass (the (examples ''x+0/(0.5-y)'')) (rgb 2 2) (entry (blank 2 2))))
       = Finite 0
   \<and> max_v (final (first_pass (the (examples ''x+0/(0.5-y)'')) (rgb 2 2) (entry (blank 2 2))))
       = Finite (1 / 2)
   \<and> \<not> fle (Finite 0) NaN \<and> \<not> fle NaN (Finite (1 / 2)) \<and> flt (Finite 0) (Finite (1 / 2))
   \<and> normalise (Finite 0) (Finite (1 / 2)) NaN = NaN
   \<and> to_byte (red_of NaN) = None"
proof -
  obtain s where "first_pass (the (examples ''x+0/(0.5-y)'')) (rgb 2 2) (entry (blank 2 2))
      = Inr s"
    and "z_values s (0, 1) = Some NaN" "min_v s = Finite 0" "max_v s = Finite (1 / 2)"
    using pole_2_pass by blast
  then show ?thesis by (simp add: final_def normalise_def)
qed

subsection \<open>Negative results in the curve plot\<close>

lemma trunc_below_minus_one: "r \<le> - 1 \<Longrightarrow> trunc r \<le> - 1"
  by (simp add: trunc_def ceiling_le_iff)

lemma trunc_small_negative: "- 1 < r \<Longrightarrow> r \<le> 0 \<Longrightarrow> trunc r = 0"
  by (auto simp add: trunc_def ceiling_eq_iff)

lemma flt_0_1: "flt a (Finite 0) \<Longrightarrow> flt a (Finite 1) \<and> \<not> fle (Finite 0) a"
  by (cases a) simp_all

text \<open>
  Claim C9 does not hold of the program. The range check of the curve loop is
  \<open>result < 1\<close> alone, so a negative result is accepted. When the very first sample,
  at \<open>x = 0\<close>, is \<open>-1/H\<close> or less, its row index \<open>(H - 1) - y_pixel\<close> is \<open>H\<close> or
  more: the write is outside a buffer of \<open>H\<close> rows. (The two dimensions are
  \<^verbatim>\<open>short int\<close>, at most 32767.)
\<close>

theorem negative_sample_out_of_bounds:
  assumes "0 < W" and "0 < H" and "W \<le> 32767" and "H \<le> 32767"
    and "imgWidth pngData = int W" and "imgHeight pngData = int H"
    and "allocated 3 W H rows" and "length rows = H"
    and "te_compile expression = Some n" and "CHR ''y'' \<notin> set expression"
    and "n (Finite 0) y0 = Finite r" and "r * real H \<le> - 1" and "- (2 ^ 63) \<le> r * real H"
  shows "\<exists>s y_pixel. makeImageData te_compile y0 pngData 3 rows expression
            = Inl (Undefined OutOfBounds, s)
          \<and> evals s = [(Finite 0, y0)] \<and> flt (n (Finite 0) y0) (Finite 1)
          \<and> to_long (fmul to_double (n (Finite 0) y0) (double_of_int (imgHeight pngData)))
              = Some y_pixel
          \<and> imgHeight pngData \<le> (imgHeight pngData - 1) - y_pixel"
proof -
  obtain s1 where s1: "for_loop (nat (imgHeight pngData)) (whiten_row pngData 3) (entry rows) = Inr s1"
    and w: "whitened rows W H 0 s1"
    using background_white [OF assms(5,6,7)] by blast
  have x: "x_incr s1 = Finite 0" "evals s1 = []" and len: "length (rowPointers s1) = length rows"
    using w by (simp_all add: whitened_def) (metis whitened_def length_map)
  have neg: "r < 0"
  proof (rule ccontr)
    assume "\<not> r < 0"
    then have "0 \<le> r * real H" by simp
    with assms(12) show False by simp
  qed
  have hd: "double_of_int (int H) = Finite (real H)"
    using assms(4) double_of_int_exact [of "int H"] by simp
  have wd: "float_of_int (int W) = Finite (real W)"
    using assms(3) float_of_int_exact [of "int W"] by simp
  have lo: "to_double (- (2 ^ 63)) = Finite (- (2 ^ 63))"
    using to_double_exact [of "- 1" 63] by simp
  have hi: "to_double (- 1) = Finite (- 1)"
    using to_double_int [of "- 1"] by simp
  obtain v where v: "to_double (r * real H) = Finite v" "- (2 ^ 63) \<le> v" "v \<le> - 1"
    using to_double_between [OF assms(13,12) lo hi] by blast
  have t: "trunc v \<le> - 1" using v(3) by (rule trunc_below_minus_one)
  have tl: "- (2 ^ 63) \<le> trunc v"
    using v(2,3) by (simp add: trunc_def le_ceiling_iff)
  have yl: "to_long (Finite v) = Some (trunc v)"
    using t tl by (simp add: to_long_def)
  have xl: "to_long (Finite 0) = Some 0" by (simp add: to_long_def trunc_def)
  have row: "int H \<le> int H - 1 - trunc v" using t by simp
  then have put: "put_pixel (rowPointers s1) (int H - 1 - trunc v) 0 (0, 0, 255) = None"
    by (simp add: put_pixel_def len assms(8))
  define s2 where "s2 = s1\<lparr>evals := [(Finite 0, y0)]\<rparr>"
  have sample: "curve_sample n y0 pngData 3 0 s1 = Inl (Undefined OutOfBounds, s2)"
    using neg put
    by (simp add: curve_sample_def Let_def x assms(5,6,11) hd wd v(1) xl yl s2_def)
  have count: "0 < nat (min (imgWidth pngData * 50) 32768)"
    using assms(1,5) by simp
  have "for_loop (nat (min (imgWidth pngData * 50) 32768)) (curve_sample n y0 pngData 3) s1
          = Inl (Undefined OutOfBounds, s2)"
    using count sample by (rule for_loop_first)
  then have "makeImageData te_compile y0 pngData 3 rows expression
          = Inl (Undefined OutOfBounds, s2)"
    using assms(9,10) s1 by (simp add: makeImageData_def fxy_check_None_iff plot_curve_def)
  moreover have "evals s2 = [(Finite 0, y0)]" by (simp add: s2_def)
  moreover have "flt (n (Finite 0) y0) (Finite 1)" using neg by (simp add: assms(11))
  moreover have "to_long (fmul to_double (n (Finite 0) y0) (double_of_int (imgHeight pngData)))
      = Some (trunc v)" by (simp add: assms(6,11) hd v(1) yl)
  moreover have "imgHeight pngData \<le> (imgHeight pngData - 1) - trunc v"
    using row by (simp add: assms(6))
  ultimately show ?thesis by blast
qed

theorem negative_sample_out_of_bounds_witness:
  "\<exists>s. makeImageData examples (Finite 0) (rgb 300 300) 3 (blank 300 300) ''x-1''
         = Inl (Undefined OutOfBounds, s)
       \<and> evals s = [(Finite 0, Finite 0)]"
proof -
  have m: "to_double (- 1) = Finite (- 1)" using to_double_int [of "- 1"] by simp
  show ?thesis
    using negative_sample_out_of_bounds [of 300 300 "rgb 300 300" "blank 300 300" examples
      "''x-1''" "\<lambda>x y. fsub to_double x (Finite 1)" "Finite 0" "- 1",
      OF _ _ _ _ _ _ allocated_blank]
    by (auto simp add: rgb_def examples_def blank_def fsub_def m)
qed

lemma fmul_negative:
  assumes "flt a (Finite 0)" and "fmul to_double a (double_of_int (int H)) = Finite v"
  shows "v \<le> 0"
proof -
  have h0: "fle (Finite 0) (double_of_int (int H))"
    using to_double_mono [of 0 "real H"] by (simp add: double_of_int_def)
  show ?thesis
  proof (cases a)
    case (Finite r)
    with assms(1) have r: "r < 0" by simp
    show ?thesis
    proof (cases "double_of_int (int H)")
      case h: (Finite h)
      with h0 have "0 \<le> h" by simp
      with r have "r * h \<le> 0" by (simp add: mult_le_0_iff)
      then have "fle (to_double (r * h)) (to_double 0)" by (rule to_double_mono)
      with assms(2) show ?thesis by (simp add: Finite h)
    qed (use assms(2) Finite r in simp_all)
  next
    case MInf
    with assms(2) show ?thesis by (cases "double_of_int (int H)") (simp_all split: if_splits)
  qed (use assms(1) in simp_all)
qed

lemma curve_sample_negative:
  assumes W: "0 < H" "imgWidth pngData = int W" "imgHeight pngData = int H"
    and short: "W * 50 \<le> 32767"
    and a: "allocated 3 W H (rowPointers s)"
    and r: "flt (n (x_incr s) y0) (Finite 0)"
    and v: "fmul to_double (n (x_incr s) y0) (double_of_int (int H)) = Finite v" "- 1 < v"
    and u: "fmul to_float (x_incr s) (float_of_int (int W)) = Finite u" "0 \<le> u" "u < real W"
  shows "\<exists>img. put_pixel (rowPointers s) (int (H - 1)) (int (nat \<lfloor>u\<rfloor>) * 3) (0, 0, 255)
             = Some img
           \<and> curve_sample n y0 pngData 3 k s
               = Inr (s\<lparr>evals := evals s @ [(x_incr s, y0)], rowPointers := img,
                        x_incr := advance (increment (int (W * 50))) (x_incr s)\<rparr>)"
proof -
  have "v \<le> 0" using r v(1) by (rule fmul_negative)
  with v(2) have "trunc v = 0" by (intro trunc_small_negative)
  then have yl: "to_long (Finite v) = Some 0" by (simp add: to_long_def)
  have f0: "0 \<le> \<lfloor>u\<rfloor>" using u(2) by simp
  have "\<lfloor>u\<rfloor> < int W" using u(3) by (simp add: floor_less_iff)
  then have col: "nat \<lfloor>u\<rfloor> < W" using u(2) by (simp add: nat_less_iff)
  have "\<lfloor>u\<rfloor> < int W" using u(3) by (simp add: floor_less_iff)
  moreover have "int W \<le> 32767" using short by simp
  moreover have "(32767::int) < 2 ^ 63" by simp
  ultimately have "\<lfloor>u\<rfloor> < 2 ^ 63" by linarith
  then have xl: "to_long (Finite u) = Some \<lfloor>u\<rfloor>"
    using u(2) f0 by (simp add: to_long_def trunc_def)
  have row: "imgHeight pngData - 1 = int (H - 1)" using W(1,3) by simp
  have "H - 1 < H" using W(1) by simp
  from put_pixel_Some [OF a this col]
  obtain img where img:
    "put_pixel (rowPointers s) (int (H - 1)) (int (nat \<lfloor>u\<rfloor>) * 3) (0, 0, 255) = Some img"
    by blast
  have lt1: "flt (n (x_incr s) y0) (Finite 1)" using r by (simp add: flt_0_1)
  have v': "fmul to_double (n (x_incr s) y0) (double_of_int (imgHeight pngData)) = Finite v"
    using v(1) by (simp only: W(3))
  have "curve_sample n y0 pngData 3 k s
      = Inr (s\<lparr>evals := evals s @ [(x_incr s, y0)], rowPointers := img,
               x_incr := advance (increment (int (W * 50))) (x_incr s)\<rparr>)"
    using img lt1 row u(1,2) v'
    by (simp add: curve_sample_def Let_def W(2) xl yl)
  with img show ?thesis by blast
qed

text \<open>
  Claim C1 does not hold of the program. A negative sample is outside \<open>[0, 1)\<close>, but
  it is not dropped: it passes the check \<open>result < 1\<close>. When the \<^verbatim>\<open>double\<close> product
  of the result and the height is greater than \<open>-1\<close>, its \<open>y_pixel\<close> is that product
  truncated towards zero, which is \<open>0\<close>, and the pixel in the bottom row of the column
  of the sample is coloured blue. The column is the \<^verbatim>\<open>float\<close> product \<open>u\<close> of
  \<open>x_incr\<close> and the width, truncated.
\<close>

theorem negative_sample_is_plotted:
  assumes "0 < W" and "0 < H"
    and "imgWidth pngData = int W" and "imgHeight pngData = int H"
    and "W * 50 \<le> 32767"
    and "allocated 3 W H (rowPointers s)"
    and "fmul to_float (x_incr s) (float_of_int (int W)) = Finite u" and "0 \<le> u" and "u < real W"
    and "flt (n (x_incr s) y0) (Finite 0)"
    and "fmul to_double (n (x_incr s) y0) (double_of_int (int H)) = Finite v" and "- 1 < v"
  shows "\<exists>t. curve_sample n y0 pngData 3 k s = Inr t
          \<and> pixel_at 3 (rowPointers t) (H - 1) (nat \<lfloor>u\<rfloor>) = (0, 0, 255)
          \<and> \<not> (fle (Finite 0) (n (x_incr s) y0) \<and> flt (n (x_incr s) y0) (Finite 1))"
proof -
  obtain img where img:
    "put_pixel (rowPointers s) (int (H - 1)) (int (nat \<lfloor>u\<rfloor>) * 3) (0, 0, 255) = Some img"
    and run: "curve_sample n y0 pngData 3 k s
               = Inr (s\<lparr>evals := evals s @ [(x_incr s, y0)], rowPointers := img,
                        x_incr := advance (increment (int (W * 50))) (x_incr s)\<rparr>)"
    using curve_sample_negative [where n = n, OF assms(2,3,4,5,6,10,11,12,7,8,9)] by blast
  from put_pixel_same [OF img] run assms(10) show ?thesis by (simp add: flt_0_1)
qed

lemma milli: "to_double (1 / 1000) = Finite (1152921504606847 / 1152921504606846976)"
  using to_double_at [of "- 10" "1 / 1000"] by (simp add: nearest_even_def)

lemma milli_300: "to_double (- (86469112845513525 / 288230376151711744)) = Finite (- (5404319552844595 / 18014398509481984))"
  using to_double_at [of "- 2" "- (86469112845513525 / 288230376151711744)"] by (simp add: nearest_even_def)

theorem negative_sample_is_plotted_witness:
  "\<exists>t. curve_sample (\<lambda>x y. fneg (to_double (1 / 1000))) (Finite 0) (rgb 300 300) 3 0
          (entry (blank 300 300)) = Inr t
      \<and> pixel_at 3 (rowPointers t) 299 0 = (0, 0, 255)"
proof -
  have w: "float_of_int 300 = Finite 300" using float_of_int_exact [of 300] by simp
  have h: "double_of_int 300 = Finite 300" using double_of_int_exact [of 300] by simp
  show ?thesis
    using negative_sample_is_plotted [of 300 300 "rgb 300 300" "entry (blank 300 300)" 0
      "\<lambda>x y. fneg (to_double (1 / 1000))" "Finite 0" "- (5404319552844595 / 18014398509481984)" 0]
    by (simp add: rgb_def entry_def allocated_blank w h milli milli_300)
qed

subsection \<open>The columns of the samples\<close>

lemma fmul_width:
  assumes "0 < W" "W * 50 \<le> 32767"
    and "fmul to_float a (float_of_int (int W)) = Finite u"
  shows "\<exists>x. a = Finite x \<and> to_float (x * real W) = Finite u"
proof -
  have w: "float_of_int (int W) = Finite (real W)"
    using assms(2) float_of_int_exact [of "int W"] by simp
  show ?thesis using assms(1,3) by (cases a) (simp_all add: w split: if_splits)
qed

lemma sample_columns:
  assumes W: "0 < W" "W * 50 \<le> 32767"
    and last: "fmul to_float (position (int (W * 50)) (W * 50 - 1)) (float_of_int (int W))
                 = Finite ul" "ul < real W"
    and k: "k < W * 50"
  shows "\<exists>u. fmul to_float (position (int (W * 50)) k) (float_of_int (int W)) = Finite u
           \<and> 0 \<le> u \<and> u < real W \<and> column W k = nat \<lfloor>u\<rfloor>"
proof -
  have w: "float_of_int (int W) = Finite (real W)"
    using W(2) float_of_int_exact [of "int W"] by simp
  have n: "0 < int (W * 50)" "int (W * 50) < 2 ^ 53" using W by simp_all
  obtain xl where xl: "position (int (W * 50)) (W * 50 - 1) = Finite xl"
    and ul: "to_float (xl * real W) = Finite ul"
    using fmul_width [OF W last(1)] by blast
  have lo: "fle (Finite 0) (position (int (W * 50)) k)"
    using position_increases [OF n, of k] by simp
  have "fle (position (int (W * 50)) k) (position (int (W * 50)) (W * 50 - 1))"
    using k by (intro position_mono n) simp
  then have "fle (position (int (W * 50)) k) (Finite xl)" by (simp only: xl)
  with lo obtain x where x: "position (int (W * 50)) k = Finite x" "0 \<le> x" "x \<le> xl"
    using fle_Finite [of 0 "position (int (W * 50)) k" xl] by blast
  have "0 \<le> x * real W" "x * real W \<le> xl * real W"
    using x by (simp_all add: mult_right_mono)
  then obtain u where u: "to_float (x * real W) = Finite u" "0 \<le> u" "u \<le> ul"
    using to_float_between [of 0 "x * real W" "xl * real W" 0 ul] ul by auto
  have prod: "fmul to_float (position (int (W * 50)) k) (float_of_int (int W)) = Finite u"
    by (simp only: x w u fmul.simps)
  have f0: "0 \<le> \<lfloor>u\<rfloor>" using u(2) by simp
  have "\<lfloor>u\<rfloor> < int W" using u(3) last(2) by (simp add: floor_less_iff)
  moreover have "int W \<le> 32767" using W(2) by simp
  moreover have "(32767::int) < 2 ^ 63" by simp
  ultimately have "\<lfloor>u\<rfloor> < 2 ^ 63" by linarith
  then have "to_long (Finite u) = Some \<lfloor>u\<rfloor>"
    using u(2) by (simp add: to_long_def trunc_def)
  then have "column W k = nat \<lfloor>u\<rfloor>" by (simp only: column_def prod option.case)
  with prod u last(2) show ?thesis by auto
qed

lemma curve_sample_bottom:
  assumes W: "0 < H" "imgWidth pngData = int W" "imgHeight pngData = int H"
    and short: "W * 50 \<le> 32767"
    and a: "allocated 3 W H rows"
    and b: "bottom y0 rows W H k s"
    and r: "flt (n (position (int (W * 50)) k) y0) (Finite 0)"
    and v: "fmul to_double (n (position (int (W * 50)) k) y0) (double_of_int (int H)) = Finite v"
      "- 1 < v"
    and u: "fmul to_float (position (int (W * 50)) k) (float_of_int (int W)) = Finite u"
      "0 \<le> u" "u < real W" "column W k = nat \<lfloor>u\<rfloor>"
  shows "\<exists>t. curve_sample n y0 pngData 3 k s = Inr t \<and> bottom y0 rows W H (Suc k) t"
proof -
  have x: "x_incr s = position (int (W * 50)) k"
    and e: "evals s = map (\<lambda>i. (position (int (W * 50)) i, y0)) [0..<k]"
    and len: "map length (rowPointers s) = map length rows"
    using b by (simp_all add: bottom_def)
  have old: "pixel_at 3 (rowPointers s) (H - 1) (column W j) = (0, 0, 255)" if "j < k" for j
    using b that unfolding bottom_def by blast
  have a': "allocated 3 W H (rowPointers s)"
    using a allocated_lengths [OF len] by simp
  define t where "t = (\<lambda>img. s\<lparr>evals := evals s @ [(x_incr s, y0)], rowPointers := img,
                        x_incr := advance (increment (int (W * 50))) (x_incr s)\<rparr>)"
  obtain img where img:
    "put_pixel (rowPointers s) (int (H - 1)) (int (nat \<lfloor>u\<rfloor>) * 3) (0, 0, 255) = Some img"
    and run: "curve_sample n y0 pngData 3 k s = Inr (t img)"
    using curve_sample_negative [where n = n and s = s and k = k, OF W short a']
      r v u(1,2,3) unfolding t_def x by blast
  have xt: "x_incr (t img) = position (int (W * 50)) (Suc k)"
    by (simp add: t_def x)
  have et: "evals (t img) = map (\<lambda>i. (position (int (W * 50)) i, y0)) [0..<Suc k]"
    by (simp add: t_def e x)
  have lt: "map length (rowPointers (t img)) = map length rows"
    using put_pixel_lengths [OF img] by (simp add: t_def len)
  have px: "pixel_at 3 img (H - 1) (column W j) = (0, 0, 255)" if j: "j < Suc k" for j
  proof (cases "column W j = column W k")
    case True
    then show ?thesis using put_pixel_same [OF img] by (simp add: u(4))
  next
    case False
    then have "j \<noteq> k" by auto
    with j have before: "j < k" by simp
    from False have "H - 1 \<noteq> H - 1 \<or> column W j \<noteq> nat \<lfloor>u\<rfloor>" by (simp add: u(4))
    from put_pixel_other [OF img this] old [OF before] show ?thesis by simp
  qed
  have "bottom y0 rows W H (Suc k) (t img)"
    unfolding bottom_def using xt et lt px by (simp add: t_def)
  with run show ?thesis by blast
qed

lemma whitened_bottom: "whitened rows W H 0 s \<Longrightarrow> bottom y0 rows W H 0 s"
  by (simp add: whitened_def bottom_def)

lemma plot_curve_bottom:
  assumes W: "0 < W" "0 < H" "imgWidth pngData = int W" "imgHeight pngData = int H"
    and short: "W * 50 \<le> 32767"
    and a: "allocated 3 W H rows"
    and last: "fmul to_float (position (int (W * 50)) (W * 50 - 1)) (float_of_int (int W))
                 = Finite ul" "ul < real W"
    and r: "\<forall>k < W * 50. flt (n (position (int (W * 50)) k) y0) (Finite 0)
              \<and> (\<exists>v. fmul to_double (n (position (int (W * 50)) k) y0) (double_of_int (int H))
                        = Finite v \<and> - 1 < v)"
  shows "\<exists>t. plot_curve n y0 pngData 3 (entry rows) = Inr t \<and> bottom y0 rows W H (W * 50) t"
proof -
  obtain s1 where s1: "for_loop (nat (imgHeight pngData)) (whiten_row pngData 3) (entry rows) = Inr s1"
    and w: "whitened rows W H 0 s1"
    using background_white [OF W(3,4) a] by blast
  have "bottom y0 rows W H 0 s1" using w by (rule whitened_bottom)
  then have "\<exists>t. for_loop (W * 50) (curve_sample n y0 pngData 3) s1 = Inr t
               \<and> bottom y0 rows W H (W * 50) t"
  proof (rule for_loop_rule)
    fix k t
    assume k: "k < W * 50" and b: "bottom y0 rows W H k t"
    from r k obtain v where neg: "flt (n (position (int (W * 50)) k) y0) (Finite 0)"
      and v: "fmul to_double (n (position (int (W * 50)) k) y0) (double_of_int (int H)) = Finite v"
        "- 1 < v" by blast
    from sample_columns [OF W(1) short last k]
    obtain u where u: "fmul to_float (position (int (W * 50)) k) (float_of_int (int W)) = Finite u"
      "0 \<le> u" "u < real W" "column W k = nat \<lfloor>u\<rfloor>" by blast
    from curve_sample_bottom [where n = n, OF W(2,3,4) short a b neg v u]
    show "\<exists>t'. curve_sample n y0 pngData 3 k t = Inr t' \<and> bottom y0 rows W H (Suc k) t'" .
  qed
  then obtain t where t: "for_loop (W * 50) (curve_sample n y0 pngData 3) s1 = Inr t"
    and b: "bottom y0 rows W H (W * 50) t" by blast
  have count: "nat (min (imgWidth pngData * 50) 32768) = W * 50"
    using short by (simp add: W(3) nat_mult_distrib)
  have no: "\<not> imgWidth pngData * 50 > 32767" using short by (simp add: W(3))
  have "plot_curve n y0 pngData 3 (entry rows) = Inr t"
    by (simp only: plot_curve_def s1 count t no sum.case if_False)
  with b show ?thesis by blast
qed

text \<open>
  On an image of at most 400 columns the sample in the middle of the 50 samples of a
  column falls into that column: the error of its position is less than a quarter of a
  pixel.
\<close>

lemma eps_0: "eps 0 = 1 / 2 ^ 25 + 1 / 2 ^ 53"
  by (simp add: eps_def power_int_minus divide_simps)

lemma middle_position:
  assumes W: "0 < W" "W \<le> 400" and k: "k \<le> W * 50 - 25"
  shows "\<exists>v. position (int (W * 50)) k = Finite v \<and> 0 \<le> v
           \<and> \<bar>v - real k / real (W * 50)\<bar> \<le> 19975 * eps 0"
proof -
  let ?K = "W * 50 - 25"
  have K: "real ?K = 50 * real W - 25" using W(1) by (simp add: of_nat_diff)
  have K': "real ?K \<le> 19975" using W(2) by (simp add: K)
  have e0: "0 \<le> eps 0" by (simp add: eps_0)
  have "1 / 800 \<le> 1 / (2 * real W)" using W by (simp add: divide_simps)
  moreover have "real ?K / real (W * 50) = 1 - 1 / (2 * real W)"
    using W(1) by (simp add: K divide_simps)
  ultimately have q: "real ?K / real (W * 50) \<le> 1 - 1 / 800" by simp
  have "real ?K * eps 0 \<le> 19975 * eps 0" using K' e0 by (rule mult_right_mono)
  also have "\<dots> \<le> 1 / 800 - 1 / 2048" by (simp add: eps_0)
  finally have "real ?K / real_of_int (int (W * 50)) + real ?K * eps 0
      \<le> 2 powi 0 - 2 powi (0 - 11)"
    using q by (simp add: power_int_minus)
  moreover have "1 / real_of_int (int (W * 50)) < 2 powi 0" using W(1) by simp
  moreover have "0 < int (W * 50)" "int (W * 50) < 2 ^ 53" using W by simp_all
  ultimately obtain v where v: "position (int (W * 50)) k = Finite v" "0 \<le> v"
    "\<bar>v - real k / real_of_int (int (W * 50))\<bar> \<le> real k * eps 0"
    using position_error [of "int (W * 50)" 0 ?K k] k by auto
  have "real k \<le> 19975" using k K' by linarith
  then have "real k * eps 0 \<le> 19975 * eps 0" using e0 by (rule mult_right_mono)
  with v show ?thesis by auto
qed

lemma middle_column:
  assumes W: "0 < W" "W \<le> 400" and c: "c < W"
  shows "column W (50 * c + 25) = c"
proof -
  let ?k = "50 * c + 25"
  have k: "?k \<le> W * 50 - 25" using c by simp
  obtain v where v: "position (int (W * 50)) ?k = Finite v"
    and e: "\<bar>v - real ?k / real (W * 50)\<bar> \<le> 19975 * eps 0"
    using middle_position [OF W k] by blast
  have w: "float_of_int (int W) = Finite (real W)"
    using W(2) float_of_int_exact [of "int W"] by simp
  have mid: "real ?k / real (W * 50) * real W = real c + 1 / 2"
    using W(1) by (simp add: divide_simps)
  have "v * real W - (real c + 1 / 2) = (v - real ?k / real (W * 50)) * real W"
    by (simp only: left_diff_distrib mid)
  then have "\<bar>v * real W - (real c + 1 / 2)\<bar> = \<bar>v - real ?k / real (W * 50)\<bar> * real W"
    by (simp only: abs_mult abs_of_nat)
  also have "\<dots> \<le> 19975 * eps 0 * real W" using e by (rule mult_right_mono) simp
  also have "\<dots> \<le> 19975 * eps 0 * 400" using W(2) by (intro mult_left_mono) (simp_all add: eps_0)
  also have "\<dots> \<le> 1 / 4" by (simp add: eps_0)
  finally have "\<bar>v * real W - (real c + 1 / 2)\<bar> \<le> 1 / 4" .
  then have b: "real c + 1 / 4 \<le> v * real W" "v * real W \<le> real c + 3 / 4"
    by linarith+
  have "\<bar>4 * int c + 1\<bar> < 2 ^ 24" "\<bar>4 * int c + 3\<bar> < 2 ^ 24" using c W(2) by simp_all
  then have "to_float (real c + 1 / 4) = Finite (real c + 1 / 4)"
    and "to_float (real c + 3 / 4) = Finite (real c + 3 / 4)"
    using to_float_exact [of "4 * int c + 1" "- 2"] to_float_exact [of "4 * int c + 3" "- 2"]
    by (simp_all add: power_int_minus algebra_simps)
  then obtain u where u: "to_float (v * real W) = Finite u" "real c + 1 / 4 \<le> u"
    "u \<le> real c + 3 / 4"
    using to_float_between [OF b] by blast
  have fl: "\<lfloor>u\<rfloor> = int c" using u(2,3) by (simp add: floor_unique)
  have "0 \<le> u" using u(2) by linarith
  moreover have "int c < 2 ^ 63" using c W(2) by simp
  ultimately have "to_long (Finite u) = Some (int c)"
    by (simp add: to_long_def trunc_def fl)
  then show ?thesis by (simp only: column_def v w u(1) fmul.simps option.case nat_int)
qed

subsection \<open>The last sample on an image of 300 columns\<close>

text \<open>
  With the increment \<^verbatim>\<open>1.0 / 15000\<close> the position stays below \<open>2237 k / 2\<^sup>2\<^sup>5\<close> up to
  one half, and from there on every addition rounds down, to a step of
  \<open>1118 / 2\<^sup>2\<^sup>4\<close>: the last position is below 1 by enough for its column to be 299.
\<close>

lemma step_15000: "to_double (1 / 15000) = Finite (2459565876494607 / 36893488147419103232)"
  using to_double_at [of "- 14" "1 / 15000"] by (simp add: nearest_even_def)

lemma increment_15000: "increment 15000 = Finite (2459565876494607 / 36893488147419103232)"
  by (simp add: increment_def double_of_int_exact step_15000)

lemma nearest_even_frac:
  assumes "0 \<le> f" "f < 1 / 2"
  shows "nearest_even (of_int m + f) = m"
proof -
  have "\<lfloor>of_int m + f\<rfloor> = m" using assms by (intro floor_unique) simp_all
  then show ?thesis using assms by (simp add: nearest_even_def)
qed

lemma advance_below:
  assumes s: "s \<le> b" and a: "fle a (Finite x)"
    and d: "to_double (x + b) = Finite (x + b)" and f: "to_float (x + b) = Finite y"
  shows "fle (advance (Finite s) a) (Finite y)"
proof -
  have "fle (advance (Finite s) a) (advance (Finite s) (Finite x))"
    using a by (rule advance_mono)
  moreover have "fle (to_double (x + s)) (to_double (x + b))"
    using s by (intro to_double_mono) simp
  then have "fle (narrow to_float (to_double (x + s))) (narrow to_float (Finite (x + b)))"
    unfolding d [symmetric] by (rule narrow_mono)
  then have "fle (advance (Finite s) (Finite x)) (Finite y)"
    by (simp add: advance_def f)
  ultimately show ?thesis by (rule fle_trans)
qed

lemma phase_1:
  assumes "k \<le> 7500"
  shows "fle (position 15000 k) (Finite (2237 * real k / 2 ^ 25))"
  using assms
proof (induction k)
  case 0
  then show ?case by simp
next
  case (Suc k)
  then have ih: "fle (position 15000 k) (Finite (2237 * real k / 2 ^ 25))" by simp
  let ?m = "2237 * int (Suc k)"
  have sum: "2237 * real k / 2 ^ 25 + 2237 / 2 ^ 25 = real_of_int ?m * 2 powi (- 25)"
    by (simp add: power_int_minus divide_simps)
  have val: "real_of_int ?m * 2 powi (- 25) = 2237 * real (Suc k) / 2 ^ 25"
    by (simp add: power_int_minus divide_simps)
  have "\<bar>?m\<bar> < 2 ^ 53" using Suc.prems by simp
  then have d: "to_double (2237 * real k / 2 ^ 25 + 2237 / 2 ^ 25)
      = Finite (2237 * real k / 2 ^ 25 + 2237 / 2 ^ 25)"
    unfolding sum by (intro to_double_exact) simp_all
  have f: "to_float (2237 * real k / 2 ^ 25 + 2237 / 2 ^ 25)
      = Finite (2237 * real (Suc k) / 2 ^ 25)"
  proof (cases "Suc k = 7500")
    case True
    then have k: "k = 7499" by simp
    show ?thesis using to_float_exact [of 8388750 "- 24"] by (simp add: k)
  next
    case False
    with Suc.prems have "\<bar>?m\<bar> < 2 ^ 24" by simp
    then have "to_float (real_of_int ?m * 2 powi (- 25)) = Finite (real_of_int ?m * 2 powi (- 25))"
      by (intro to_float_exact) simp_all
    then show ?thesis unfolding sum val .
  qed
  have "fle (advance (Finite (2459565876494607 / 36893488147419103232)) (position 15000 k))
      (Finite (2237 * real (Suc k) / 2 ^ 25))"
    using _ ih d f by (rule advance_below) simp
  then show ?case by (simp add: increment_15000 del: of_nat_Suc)
qed

lemma phase_2:
  assumes "j \<le> 7499"
  shows "fle (position 15000 (7500 + j)) (Finite ((8388750 + 1118 * real j) / 2 ^ 24))"
  using assms
proof (induction j)
  case 0
  then show ?case using phase_1 [of 7500] by simp
next
  case (Suc j)
  then have ih: "fle (position 15000 (7500 + j)) (Finite ((8388750 + 1118 * real j) / 2 ^ 24))"
    by simp
  define M where "M = 8388750 + 1118 * int j"
  have M: "8388750 \<le> M" "M \<le> 16771514" using Suc.prems by (simp_all add: M_def)
  have x: "(8388750 + 1118 * real j) / 2 ^ 24 = real_of_int M / 2 ^ 24" by (simp add: M_def)
  let ?Y = "real_of_int M / 2 ^ 24 + 71583 / 2 ^ 30"
  have Y: "?Y = real_of_int (64 * M + 71583) * 2 powi (- 30)"
    by (simp add: power_int_minus divide_simps)
  have "\<bar>64 * M + 71583\<bar> < 2 ^ 53" using M by simp
  then have d: "to_double ?Y = Finite ?Y"
    unfolding Y by (intro to_double_exact) simp_all
  have lo: "2 powi (- 1) \<le> \<bar>?Y\<bar>"
  proof -
    have "(8388608::real) \<le> real_of_int M" using M(1) by simp
    then have "1 / 2 \<le> real_of_int M / 2 ^ 24" by (simp add: divide_simps)
    then show ?thesis by (simp add: power_int_minus)
  qed
  have hi: "\<bar>?Y\<bar> < 2 powi (- 1 + 1)"
  proof -
    have "real_of_int M \<le> 16771514" using M(2) by simp
    then have "real_of_int M / 2 ^ 24 \<le> 16771514 / 2 ^ 24" by (simp add: divide_simps)
    moreover have "0 \<le> real_of_int M" using M(1) by simp
    ultimately show ?thesis by simp
  qed
  have q: "?Y / 2 powi (- 1 - 23) = of_int (M + 1118) + 31 / 64"
    by (simp add: power_int_minus divide_simps)
  have "to_float ?Y
      = Finite (of_int (nearest_even (?Y / 2 powi (- 1 - 23))) * 2 powi (- 1 - 23))"
    using lo hi by (intro to_float_at) simp_all
  also have "nearest_even (?Y / 2 powi (- 1 - 23)) = M + 1118"
    unfolding q by (rule nearest_even_frac) simp_all
  also have "real_of_int (M + 1118) * 2 powi (- 1 - 23)
      = (8388750 + 1118 * real (Suc j)) / 2 ^ 24"
    by (simp add: M_def power_int_minus divide_simps)
  finally have f: "to_float ?Y = Finite ((8388750 + 1118 * real (Suc j)) / 2 ^ 24)" .
  have "fle (advance (Finite (2459565876494607 / 36893488147419103232)) (position 15000 (7500 + j)))
      (Finite ((8388750 + 1118 * real (Suc j)) / 2 ^ 24))"
    using _ ih [unfolded x] d f by (rule advance_below) simp
  then show ?case by (simp only: add_Suc_right position.simps increment_15000)
qed

lemma last_column_300:
  "\<exists>u. fmul to_float (position (int (300 * 50)) (300 * 50 - 1)) (float_of_int (int 300))
          = Finite u \<and> u < real 300"
proof -
  have "fle (position 15000 (7500 + 7499)) (Finite ((8388750 + 1118 * real 7499) / 2 ^ 24))"
    by (rule phase_2) simp
  then have up: "fle (position 15000 14999) (Finite (16772632 / 2 ^ 24))" by simp
  have "fle (Finite 0) (position 15000 14999)"
    using position_increases [of 15000 14999] by simp
  with up obtain x where x: "position 15000 14999 = Finite x" "0 \<le> x" "x \<le> 16772632 / 2 ^ 24"
    using fle_Finite [of 0 "position 15000 14999" "16772632 / 2 ^ 24"] by blast
  have w: "float_of_int 300 = Finite 300" using float_of_int_exact [of 300] by simp
  have top: "to_float (4799 / 16) = Finite (4799 / 16)"
    using to_float_exact [of 4799 "- 4"] by simp
  have "0 \<le> x * 300" "x * 300 \<le> 4799 / 16" using x(2,3) by simp_all
  then obtain u where "to_float (x * 300) = Finite u" "u \<le> 4799 / 16"
    using to_float_between [of 0 "x * 300" "4799 / 16" 0 "4799 / 16"] top by auto
  then show ?thesis by (simp add: x w)
qed

subsection \<open>A curve of negative results\<close>

text \<open>
  Claim C3 does not hold of the program. The loop does take \<open>W * 50\<close> samples, at the
  positions the \<^verbatim>\<open>float\<close> counter \<open>x_incr\<close> reaches by repeated addition of
  \<^verbatim>\<open>1.0 / (W * 50)\<close>. But when every result is negative, so that no sample is in
  \<open>[0, 1)\<close>, with a product with the height that is greater than \<open>-1\<close>, the run ends
  with the whole bottom row blue, not white. This is for an image of at most 400
  columns whose last sample still falls inside the image, as it does for the 300
  columns of the program.
\<close>

theorem negative_curve_in_bottom_row:
  assumes "0 < W" and "0 < H"
    and "imgWidth pngData = int W" and "imgHeight pngData = int H"
    and "W \<le> 400"
    and "allocated 3 W H rows"
    and "te_compile expression = Some n" and "CHR ''y'' \<notin> set expression"
    and "fmul to_float (position (int (W * 50)) (W * 50 - 1)) (float_of_int (int W)) = Finite u"
    and "u < real W"
    and "\<forall>k < W * 50. flt (n (position (int (W * 50)) k) y0) (Finite 0)
              \<and> (\<exists>v. fmul to_double (n (position (int (W * 50)) k) y0) (double_of_int (int H))
                        = Finite v \<and> - 1 < v)"
  shows "\<exists>s. makeImageData te_compile y0 pngData 3 rows expression = Inr s
          \<and> evals s = map (\<lambda>k. (position (int (W * 50)) k, y0)) [0..<W * 50]
          \<and> (\<forall>(x, y) \<in> set (evals s). \<not> (fle (Finite 0) (n x y) \<and> flt (n x y) (Finite 1)))
          \<and> (\<forall>c<W. pixel_at 3 (rowPointers s) (H - 1) c = (0, 0, 255))"
proof -
  have short: "W * 50 \<le> 32767" using assms(5) by simp
  obtain t where t: "plot_curve n y0 pngData 3 (entry rows) = Inr t"
    and b: "bottom y0 rows W H (W * 50) t"
    using plot_curve_bottom [where n = n, OF assms(1,2,3,4) short assms(6,9,10,11)] by blast
  have run: "makeImageData te_compile y0 pngData 3 rows expression = Inr t"
    using assms(7,8) t by (simp add: makeImageData_def fxy_check_None_iff)
  have e: "evals t = map (\<lambda>k. (position (int (W * 50)) k, y0)) [0..<W * 50]"
    using b by (simp add: bottom_def)
  have out: "\<forall>(x, y) \<in> set (evals t). \<not> (fle (Finite 0) (n x y) \<and> flt (n x y) (Finite 1))"
    using assms(11) by (auto simp add: e dest: flt_0_1)
  have px: "\<forall>c<W. pixel_at 3 (rowPointers t) (H - 1) c = (0, 0, 255)"
  proof (intro allI impI)
    fix c assume c: "c < W"
    then have "50 * c + 25 < W * 50" by simp
    then have "pixel_at 3 (rowPointers t) (H - 1) (column W (50 * c + 25)) = (0, 0, 255)"
      using b unfolding bottom_def by blast
    then show "pixel_at 3 (rowPointers t) (H - 1) c = (0, 0, 255)"
      by (simp only: middle_column [OF assms(1,5) c])
  qed
  show ?thesis
    by (rule exI [of _ t]) (intro conjI run e out px)
qed

theorem negative_curve_in_bottom_row_witness:
  "\<exists>s. makeImageData examples (Finite 0) (rgb 300 300) 3 (blank 300 300) ''-0.001'' = Inr s
      \<and> length (evals s) = 15000
      \<and> (\<forall>c<300. pixel_at 3 (rowPointers s) 299 c = (0, 0, 255))"
proof -
  let ?n = "\<lambda>x y. fneg (to_double (1 / 1000))"
  have e: "examples ''-0.001'' = Some ?n"
    by (simp add: examples_def)
  have h: "double_of_int 300 = Finite 300" using double_of_int_exact [of 300] by simp
  have r: "\<forall>k < 300 * 50. flt (?n (position (int (300 * 50)) k) (Finite 0)) (Finite 0)
              \<and> (\<exists>v. fmul to_double (?n (position (int (300 * 50)) k) (Finite 0))
                        (double_of_int (int 300)) = Finite v \<and> - 1 < v)"
    by (simp add: h milli milli_300)
  obtain u where u: "fmul to_float (position (int (300 * 50)) (300 * 50 - 1))
      (float_of_int (int 300)) = Finite u" "u < real 300"
    using last_column_300 by blast
  obtain s where "makeImageData examples (Finite 0) (rgb 300 300) 3 (blank 300 300) ''-0.001''
        = Inr s"
    and "evals s = map (\<lambda>k. (position (int (300 * 50)) k, Finite 0)) [0..<300 * 50]"
    and "\<forall>c<300. pixel_at 3 (rowPointers s) (300 - 1) c = (0, 0, 255)"
    using negative_curve_in_bottom_row [of 300 300 "rgb 300 300" "blank 300 300" examples
      "''-0.001''" ?n u "Finite 0", OF _ _ _ _ _ allocated_blank e _ u r]
    by (auto simp add: rgb_def simp del: upt_rec_numeral)
  then show ?thesis by (auto simp del: upt_rec_numeral)
qed

subsection \<open>A curve of results that are not below 1\<close>

lemma curve_sample_dropped:
  assumes "\<not> flt (n (x_incr s) y0) (Finite 1)"
  shows "curve_sample n y0 pngData 3 k s
      = Inr (s\<lparr>evals := evals s @ [(x_incr s, y0)],
               x_incr := advance (increment (imgWidth pngData * 50)) (x_incr s)\<rparr>)"
  using assms by (simp add: curve_sample_def Let_def)

lemma whitened_untouched: "whitened rows W H 0 s \<Longrightarrow> untouched y0 rows W H 0 s"
  by (simp add: whitened_def untouched_def)

lemma plot_curve_dropped:
  assumes W: "imgWidth pngData = int W" "imgHeight pngData = int H"
    and short: "W * 50 \<le> 32767"
    and a: "allocated 3 W H rows"
    and r: "\<forall>k < W * 50. \<not> flt (n (position (int (W * 50)) k) y0) (Finite 1)"
  shows "\<exists>t. plot_curve n y0 pngData 3 (entry rows) = Inr t \<and> untouched y0 rows W H (W * 50) t"
proof -
  obtain s1 where s1: "for_loop (nat (imgHeight pngData)) (whiten_row pngData 3) (entry rows) = Inr s1"
    and w: "whitened rows W H 0 s1"
    using background_white [OF W a] by blast
  have "untouched y0 rows W H 0 s1" using w by (rule whitened_untouched)
  then have "\<exists>t. for_loop (W * 50) (curve_sample n y0 pngData 3) s1 = Inr t
               \<and> untouched y0 rows W H (W * 50) t"
  proof (rule for_loop_rule)
    fix k t
    assume k: "k < W * 50" and u: "untouched y0 rows W H k t"
    have x: "x_incr t = position (int (W * 50)) k" using u by (simp add: untouched_def)
    with r k have "\<not> flt (n (x_incr t) y0) (Finite 1)" by simp
    then have "curve_sample n y0 pngData 3 k t
      = Inr (t\<lparr>evals := evals t @ [(x_incr t, y0)],
               x_incr := advance (increment (imgWidth pngData * 50)) (x_incr t)\<rparr>)"
      by (rule curve_sample_dropped)
    moreover have "untouched y0 rows W H (Suc k)
        (t\<lparr>evals := evals t @ [(x_incr t, y0)],
               x_incr := advance (increment (imgWidth pngData * 50)) (x_incr t)\<rparr>)"
      using u by (simp add: untouched_def W(1))
    ultimately show "\<exists>t'. curve_sample n y0 pngData 3 k t = Inr t'
        \<and> untouched y0 rows W H (Suc k) t'" by simp
  qed
  then obtain t where t: "for_loop (W * 50) (curve_sample n y0 pngData 3) s1 = Inr t"
    and b: "untouched y0 rows W H (W * 50) t" by blast
  have count: "nat (min (imgWidth pngData * 50) 32768) = W * 50"
    using short by (simp add: W(1) nat_mult_distrib)
  have no: "\<not> imgWidth pngData * 50 > 32767" using short by (simp add: W(1))
  have "plot_curve n y0 pngData 3 (entry rows) = Inr t"
    by (simp only: plot_curve_def s1 count t no sum.case if_False)
  with b show ?thesis by blast
qed

text \<open>
  The part of claim C1 about the constant 2 holds: every sample is dropped and the image
  stays white.
\<close>

lemma constant_two_stays_white:
  "\<exists>s. makeImageData examples (Finite 0) (rgb 300 300) 3 (blank 300 300) ''2'' = Inr s
      \<and> length (evals s) = 15000
      \<and> (\<forall>r<300. \<forall>c<300. pixel_at 3 (rowPointers s) r c = (255, 255, 255))"
proof -
  obtain t where t: "plot_curve (\<lambda>x y. Finite 2) (Finite 0) (rgb 300 300) 3 (entry (blank 300 300))
      = Inr t"
    and u: "untouched (Finite 0) (blank 300 300) 300 300 (300 * 50) t"
    using plot_curve_dropped [of "rgb 300 300" 300 300 "blank 300 300" "\<lambda>x y. Finite 2" "Finite 0"]
    by (auto simp add: rgb_def allocated_blank)
  have "makeImageData examples (Finite 0) (rgb 300 300) 3 (blank 300 300) ''2'' = Inr t"
    using t by (simp add: makeImageData_def examples_def fxy_check_None_iff)
  moreover have "length (evals t) = 15000" using u by (simp add: untouched_def)
  moreover have "\<forall>r<300. \<forall>c<300. pixel_at 3 (rowPointers t) r c = (255, 255, 255)"
    using u unfolding untouched_def by blast
  ultimately show ?thesis by blast
qed

end
